theory Spec2Isabelle
  imports Main
begin

section \<open>The built-in Date of the host language\<close>

text \<open>
  \<^verbatim>\<open>script.js\<close> computes the layout of a month with the built-in \<^verbatim>\<open>Date\<close>:
  \<^verbatim>\<open>new Date(year, month, 1).getDay()\<close> and \<^verbatim>\<open>new Date(year, month + 1, 0).getDate()\<close>,
  and navigates with \<^verbatim>\<open>getMonth\<close>, \<^verbatim>\<open>getFullYear\<close> and \<^verbatim>\<open>setMonth\<close>. This section
  writes down the abstract operations of ECMA-262 (section "Date Objects") these calls are
  defined by. A time value is a number of milliseconds since 1 January 1970; the numbers
  involved are integers far below \<open>2 ^ 53\<close>, so they are \<open>int\<close> here, and \<^verbatim>\<open>NaN\<close>
  (the time value of an invalid Date, and what its getters return) is \<open>None\<close>.
  The local time zone is taken to be UTC without daylight saving, so that
  \<^verbatim>\<open>LocalTime(t) = t = UTC(t)\<close>.
\<close>

definition msPerDay :: int where
  "msPerDay = 86400000"

definition Day :: "int \<Rightarrow> int" where
  "Day t = t div msPerDay"

definition TimeWithinDay :: "int \<Rightarrow> int" where
  "TimeWithinDay t = t mod msPerDay"

definition DaysInYear :: "int \<Rightarrow> int" where
  "DaysInYear y =
     (if y mod 4 \<noteq> 0 then 365
      else if y mod 100 \<noteq> 0 then 366
      else if y mod 400 \<noteq> 0 then 365
      else 366)"

definition DayFromYear :: "int \<Rightarrow> int" where
  "DayFromYear y =
     365 * (y - 1970) + (y - 1969) div 4 - (y - 1901) div 100 + (y - 1601) div 400"

text \<open>
  \<^verbatim>\<open>YearFromTime(t)\<close> is "the largest integer y such that TimeFromYear(y) \<le> t". It is
  computed by a search upwards from a year that is not after the one wanted (a year has at
  most 366 days and at least 365); \<open>YearFromDay_lower\<close>, \<open>YearFromDay_upper\<close> and
  \<open>YearFromDay_unique\<close> below show that the search finds exactly that year.
\<close>

function year_search :: "int \<Rightarrow> int \<Rightarrow> int" where
  "year_search d y = (if DayFromYear (y + 1) \<le> d then year_search d (y + 1) else y)"
  by pat_completeness auto

termination
proof (relation "measure (\<lambda>(d, y). nat (d - DayFromYear y))")
  show "wf (measure (\<lambda>(d, y). nat (d - DayFromYear y)))"
    by simp
next
  fix d y :: int
  assume a: "DayFromYear (y + 1) \<le> d"
  define q4 q100 q400 where "q4 = (y - 1969) div 4" and "q100 = (y - 1901) div 100"
    and "q400 = (y - 1601) div 400"
  define r4 r100 r400 where "r4 = (y + 1 - 1969) div 4" and "r100 = (y + 1 - 1901) div 100"
    and "r400 = (y + 1 - 1601) div 400"
  have "q4 \<le> r4"
    unfolding q4_def r4_def by (intro zdiv_mono1) simp_all
  moreover have "r100 \<le> q100 + 1"
  proof -
    have "r100 \<le> (y - 1901 + 100) div 100"
      unfolding r100_def by (intro zdiv_mono1) simp_all
    also have "\<dots> = q100 + 1"
      by (simp add: q100_def)
    finally show ?thesis .
  qed
  moreover have "q400 \<le> r400"
    unfolding q400_def r400_def by (intro zdiv_mono1) simp_all
  moreover have "DayFromYear y = 365 * (y - 1970) + q4 - q100 + q400"
    by (simp only: DayFromYear_def q4_def q100_def q400_def)
  moreover have "DayFromYear (y + 1) = 365 * (y + 1 - 1970) + r4 - r100 + r400"
    by (simp only: DayFromYear_def r4_def r100_def r400_def)
  ultimately have "DayFromYear y < DayFromYear (y + 1)"
    by simp
  with a show "((d, y + 1), (d, y)) \<in> measure (\<lambda>(d, y). nat (d - DayFromYear y))"
    by simp
qed

declare year_search.simps [simp del]

definition YearFromDay :: "int \<Rightarrow> int" where
  "YearFromDay d = year_search d (1970 + (if 0 \<le> d then d div 366 else d div 365))"

definition YearFromTime :: "int \<Rightarrow> int" where
  "YearFromTime t = YearFromDay (Day t)"

definition InLeapYear :: "int \<Rightarrow> int" where
  "InLeapYear t = (if DaysInYear (YearFromTime t) = 365 then 0 else 1)"

definition DayWithinYear :: "int \<Rightarrow> int" where
  "DayWithinYear t = Day t - DayFromYear (YearFromTime t)"

definition MonthFromTime :: "int \<Rightarrow> int" where
  "MonthFromTime t =
     (let d = DayWithinYear t; l = InLeapYear t in
      if d < 31 then 0
      else if d < 59 + l then 1
      else if d < 90 + l then 2
      else if d < 120 + l then 3
      else if d < 151 + l then 4
      else if d < 181 + l then 5
      else if d < 212 + l then 6
      else if d < 243 + l then 7
      else if d < 273 + l then 8
      else if d < 304 + l then 9
      else if d < 334 + l then 10
      else 11)"

definition DateFromTime :: "int \<Rightarrow> int" where
  "DateFromTime t =
     (let d = DayWithinYear t; l = InLeapYear t; m = MonthFromTime t in
      if m = 0 then d + 1
      else if m = 1 then d - 30
      else if m = 2 then d - 58 - l
      else if m = 3 then d - 89 - l
      else if m = 4 then d - 119 - l
      else if m = 5 then d - 150 - l
      else if m = 6 then d - 180 - l
      else if m = 7 then d - 211 - l
      else if m = 8 then d - 242 - l
      else if m = 9 then d - 272 - l
      else if m = 10 then d - 303 - l
      else d - 333 - l)"

definition WeekDay :: "int \<Rightarrow> int" where
  "WeekDay t = (Day t + 4) mod 7"

text \<open>
  \<^verbatim>\<open>MakeDay(year, month, date)\<close>: the months overflow into the years, and the day number
  is that of day 1 of the month plus \<open>date - 1\<close>, so that a date of 0 is the last day of
  the month before. ECMA-262 asks for the day of a time value \<open>t\<close> with
  \<^verbatim>\<open>YearFromTime(t) = ym\<close>, \<^verbatim>\<open>MonthFromTime(t) = mn\<close> and \<^verbatim>\<open>DateFromTime(t) = 1\<close>;
  here it is computed from \<open>monthStart\<close>, the day within the year at which a month
  begins, and \<open>civil_of_day\<close> below shows that it is that day.
\<close>

definition monthStart :: "int \<Rightarrow> int \<Rightarrow> int" where
  "monthStart mn l =
     (if mn = 0 then 0
      else if mn = 1 then 31
      else if mn = 2 then 59 + l
      else if mn = 3 then 90 + l
      else if mn = 4 then 120 + l
      else if mn = 5 then 151 + l
      else if mn = 6 then 181 + l
      else if mn = 7 then 212 + l
      else if mn = 8 then 243 + l
      else if mn = 9 then 273 + l
      else if mn = 10 then 304 + l
      else 334 + l)"

definition MakeDay :: "int \<Rightarrow> int \<Rightarrow> int \<Rightarrow> int" where
  "MakeDay year month date =
     (let ym = year + month div 12;
          mn = month mod 12;
          l = (if DaysInYear ym = 365 then 0 else 1)
      in DayFromYear ym + monthStart mn l + date - 1)"

definition MakeDate :: "int \<Rightarrow> int \<Rightarrow> int" where
  "MakeDate day time = day * msPerDay + time"

definition TimeClip :: "int \<Rightarrow> int option" where
  "TimeClip time = (if \<bar>time\<bar> > 8640000000000000 then None else Some time)"

text \<open>
  \<^verbatim>\<open>new Date(year, month, date)\<close> with integer arguments: a year from 0 to 99 stands for
  1900 + year; the time of day is 0.
\<close>

definition Date_ymd :: "int \<Rightarrow> int \<Rightarrow> int \<Rightarrow> int option" where
  "Date_ymd year month date =
     (let yr = (if 0 \<le> year \<and> year \<le> 99 then 1900 + year else year)
      in TimeClip (MakeDate (MakeDay yr month date) 0))"

definition getDay :: "int option \<Rightarrow> int option" where
  "getDay d = map_option WeekDay d"

definition getDate :: "int option \<Rightarrow> int option" where
  "getDate d = map_option DateFromTime d"

definition getMonth :: "int option \<Rightarrow> int option" where
  "getMonth d = map_option MonthFromTime d"

definition getFullYear :: "int option \<Rightarrow> int option" where
  "getFullYear d = map_option YearFromTime d"

text \<open>
  \<^verbatim>\<open>setMonth(month)\<close> keeps the year, the day of the month and the time of day of the
  Date and replaces the month; an invalid Date, or a month that is \<^verbatim>\<open>NaN\<close>, gives an
  invalid Date.
\<close>

definition setMonth :: "int option \<Rightarrow> int option \<Rightarrow> int option" where
  "setMonth d month =
     (case d of
        None \<Rightarrow> None
      | Some t \<Rightarrow>
          (case month of
             None \<Rightarrow> None
           | Some m \<Rightarrow>
               TimeClip (MakeDate (MakeDay (YearFromTime t) m (DateFromTime t))
                                  (TimeWithinDay t))))"

section \<open>Strings, local storage and the class list\<close>

text \<open>
  A string is a list of code units, here those from U+0000 to U+00FF. A Number that is
  an integer prints in decimal, with a minus sign when negative (the exponent notation
  starts at \<open>10 ^ 21\<close>, far beyond any year a valid Date has).
\<close>

definition digit_char :: "nat \<Rightarrow> char" where
  "digit_char n = ''0123456789'' ! n"

fun nat_to_string :: "nat \<Rightarrow> string" where
  "nat_to_string n =
     (if n < 10 then [digit_char n]
      else nat_to_string (n div 10) @ [digit_char (n mod 10)])"

declare nat_to_string.simps [simp del]

definition Number_toString :: "int \<Rightarrow> string" where
  "Number_toString n =
     (if n < 0 then CHR ''-'' # nat_to_string (nat (- n)) else nat_to_string (nat n))"

text \<open>\<^verbatim>\<open>s.padStart(2, '0')\<close>\<close>

definition padStart2 :: "string \<Rightarrow> string" where
  "padStart2 s = (if length s < 2 then replicate (2 - length s) CHR ''0'' @ s else s)"

text \<open>\<^verbatim>\<open>function pad(num) { return num.toString().padStart(2, '0'); }\<close>\<close>

definition pad :: "int \<Rightarrow> string" where
  "pad num = padStart2 (Number_toString num)"

text \<open>
  \<^verbatim>\<open>toLowerCase\<close> on code units up to U+00FF: the letters A to Z, and the capital
  letters of Latin-1 (U+00C0 to U+00DE without the multiplication sign U+00D7), move up
  by 32.
\<close>

definition lower_char :: "char \<Rightarrow> char" where
  "lower_char c =
     (let n = (of_char c :: nat) in
      if (65 \<le> n \<and> n \<le> 90) \<or> (192 \<le> n \<and> n \<le> 222 \<and> n \<noteq> 215)
      then char_of (n + 32) else c)"

definition toLowerCase :: "string \<Rightarrow> string" where
  "toLowerCase s = map lower_char s"

text \<open>
  \<^verbatim>\<open>localStorage\<close>: a map from keys to values. \<^verbatim>\<open>getItem\<close> returns \<^verbatim>\<open>null\<close>
  (\<open>None\<close>) for a key that is absent. Storage that is disabled or full is not modelled.
\<close>

type_synonym storage = "string \<Rightarrow> string option"

definition getItem :: "storage \<Rightarrow> string \<Rightarrow> string option" where
  "getItem ls k = ls k"

definition setItem :: "storage \<Rightarrow> string \<Rightarrow> string \<Rightarrow> storage" where
  "setItem ls k v = ls(k \<mapsto> v)"

definition removeItem :: "storage \<Rightarrow> string \<Rightarrow> storage" where
  "removeItem ls k = ls(k := None)"

text \<open>
  \<^verbatim>\<open>classList\<close> is an ordered set of tokens. \<^verbatim>\<open>add\<close> throws a \<^verbatim>\<open>SyntaxError\<close> for
  the empty token and an \<^verbatim>\<open>InvalidCharacterError\<close> for a token that contains ASCII
  whitespace (tab, line feed, form feed, carriage return, space); otherwise it appends the
  token unless it is there already.
\<close>

datatype dom_exception = SyntaxError | InvalidCharacterError

definition ascii_whitespace :: "char \<Rightarrow> bool" where
  "ascii_whitespace c = (of_char c \<in> {9, 10, 12, 13, 32 :: nat})"

definition classList_add :: "string list \<Rightarrow> string \<Rightarrow> dom_exception + string list" where
  "classList_add cl token =
     (if token = [] then Inl SyntaxError
      else if list_ex ascii_whitespace token then Inl InvalidCharacterError
      else Inr (if token \<in> set cl then cl else cl @ [token]))"

section \<open>The page\<close>

text \<open>
  A table cell (\<^verbatim>\<open>td\<close>) has its class list and, when it shows a day of the month, the
  children \<^verbatim>\<open>buildCalendar\<close> gives it: the \<^verbatim>\<open>div.day-number\<close> whose text is the day, and
  the \<^verbatim>\<open>select.grade-select\<close> with its label, the value it shows, and the \<^verbatim>\<open>dateStr\<close>
  its change listener was created with. A cell outside the month has no children.
\<close>

record day_content =
  dayNumber :: int
  dateKey :: string
  ariaLabel :: string
  selectValue :: string

record td =
  classList :: "string list"
  children :: "day_content option"

record page =
  monthYearText :: string
  calendarBody :: "td list list"

text \<open>A page on which no calendar has been built yet.\<close>

definition blank_page :: page where
  "blank_page = \<lparr>monthYearText = [], calendarBody = []\<rparr>"

definition monthNames :: "string list" where
  "monthNames =
     [''January'', ''February'', ''March'', ''April'', ''May'', ''June'',
      ''July'', ''August'', ''September'', ''October'', ''November'', ''December'']"

text \<open>\<^verbatim>\<open>monthNames[month]\<close> in a template literal: \<^verbatim>\<open>undefined\<close> outside the array.\<close>

definition monthName :: "int \<Rightarrow> string" where
  "monthName month =
     (if 0 \<le> month \<and> month < 12 then monthNames ! nat month else ''undefined'')"

definition grades :: "string list" where
  "grades = [''S'', ''A'', ''B'', ''C'', ''D'', ''F'']"

text \<open>
  The select has the default option with the value \<^verbatim>\<open>''\<close> and one option per grade.
  Assigning to \<^verbatim>\<open>selectEl.value\<close> selects the first option with that value; when there
  is none, no option is selected and the value of the select reads \<^verbatim>\<open>''\<close>.
\<close>

definition option_values :: "string list" where
  "option_values = [] # grades"

definition select_set_value :: "string \<Rightarrow> string" where
  "select_set_value v = (if v \<in> set option_values then v else [])"

text \<open>
  \<^verbatim>\<open>function applyGradeClass(cell, grade) {
    const gradeClass = `grade-${grade.toLowerCase()}`;
    cell.classList.add(gradeClass);
  }\<close>
\<close>

definition applyGradeClass :: "td \<Rightarrow> string \<Rightarrow> dom_exception + td" where
  "applyGradeClass cell grade =
     (let gradeClass = ''grade-'' @ toLowerCase grade in
      case classList_add (classList cell) gradeClass of
        Inl e \<Rightarrow> Inl e
      | Inr cl \<Rightarrow> Inr (cell\<lparr>classList := cl\<rparr>))"

text \<open>
  \<^verbatim>\<open>function removeGradeClasses(cell) {
    cell.classList.remove('grade-s', 'grade-a', 'grade-b', 'grade-c', 'grade-d', 'grade-f');
  }\<close>
  The six tokens are valid, so \<^verbatim>\<open>remove\<close> does not throw.
\<close>

definition grade_classes :: "string list" where
  "grade_classes = [''grade-s'', ''grade-a'', ''grade-b'', ''grade-c'', ''grade-d'', ''grade-f'']"

definition removeGradeClasses :: "td \<Rightarrow> td" where
  "removeGradeClasses cell =
     cell\<lparr>classList := filter (\<lambda>c. c \<notin> set grade_classes) (classList cell)\<rparr>"

section \<open>buildCalendar\<close>

text \<open>\<^verbatim>\<open>Math.ceil(totalCells / 7)\<close> for an integer \<^verbatim>\<open>totalCells\<close>.\<close>

definition ceil_div7 :: "int \<Rightarrow> int" where
  "ceil_div7 n = - ((- n) div 7)"

text \<open>\<^verbatim>\<open>`${year}-${pad(month + 1)}-${pad(day)}`\<close>\<close>

definition date_key :: "int \<Rightarrow> int \<Rightarrow> int \<Rightarrow> string" where
  "date_key year month day =
     Number_toString year @ ''-'' @ pad (month + 1) @ ''-'' @ pad day"

text \<open>
  The body of the \<^verbatim>\<open>if\<close> of lines 68 to 123, for the day \<open>day\<close>: the cell with its day
  number and its select, the saved grade loaded from the storage. \<^verbatim>\<open>if (savedGrade)\<close>
  holds for a value that is neither \<^verbatim>\<open>null\<close> nor the empty string.
\<close>

definition day_cell :: "int \<Rightarrow> int \<Rightarrow> storage \<Rightarrow> int \<Rightarrow> dom_exception + td" where
  "day_cell month year ls day =
     (let dateStr = date_key year month day;
          td0 = \<lparr>classList = [], children = None\<rparr>;
          content = \<lparr>dayNumber = day, dateKey = dateStr,
                     ariaLabel = ''Select grade for '' @ dateStr, selectValue = []\<rparr>
      in case getItem ls dateStr of
           None \<Rightarrow> Inr (td0\<lparr>children := Some content\<rparr>)
         | Some savedGrade \<Rightarrow>
             if savedGrade \<noteq> [] then
               (case applyGradeClass td0 savedGrade of
                  Inl e \<Rightarrow> Inl e
                | Inr td1 \<Rightarrow>
                    Inr (td1\<lparr>children :=
                      Some (content\<lparr>selectValue := select_set_value savedGrade\<rparr>)\<rparr>))
             else Inr (td0\<lparr>children := Some content\<rparr>))"

text \<open>
  One turn of the inner loop (lines 63 to 126) at \<open>cellIndex\<close> with the running
  \<open>dayCounter\<close>: the cell, and the counter after it.
\<close>

definition build_cell ::
  "int \<Rightarrow> int \<Rightarrow> storage \<Rightarrow> int \<Rightarrow> int \<Rightarrow> int \<Rightarrow> int \<Rightarrow> dom_exception + (td \<times> int)" where
  "build_cell month year ls firstDay daysInMonth cellIndex dayCounter =
     (if cellIndex \<ge> firstDay \<and> dayCounter \<le> daysInMonth then
        (case day_cell month year ls dayCounter of
           Inl e \<Rightarrow> Inl e
         | Inr cell \<Rightarrow> Inr (cell, dayCounter + 1))
      else Inr (\<lparr>classList = [], children = None\<rparr>, dayCounter))"

text \<open>The inner loop over the columns that are left, for the row \<open>row\<close>.\<close>

fun build_row ::
  "int \<Rightarrow> int \<Rightarrow> storage \<Rightarrow> int \<Rightarrow> int \<Rightarrow> nat \<Rightarrow> nat list \<Rightarrow> int \<Rightarrow>
     dom_exception + (td list \<times> int)" where
  "build_row month year ls firstDay daysInMonth row [] dayCounter = Inr ([], dayCounter)"
| "build_row month year ls firstDay daysInMonth row (col # cols) dayCounter =
     (case build_cell month year ls firstDay daysInMonth (int row * 7 + int col) dayCounter of
        Inl e \<Rightarrow> Inl e
      | Inr (cell, dayCounter') \<Rightarrow>
          (case build_row month year ls firstDay daysInMonth row cols dayCounter' of
             Inl e \<Rightarrow> Inl e
           | Inr (cells, dayCounter'') \<Rightarrow> Inr (cell # cells, dayCounter'')))"

text \<open>
  The outer loop over the rows that are left. A row is appended to the body of the table
  once its seven cells are built; an exception leaves the rows appended so far and ends the
  call.
\<close>

fun build_rows ::
  "int \<Rightarrow> int \<Rightarrow> storage \<Rightarrow> int \<Rightarrow> int \<Rightarrow> nat list \<Rightarrow> int \<Rightarrow> page \<Rightarrow>
     page \<times> dom_exception option" where
  "build_rows month year ls firstDay daysInMonth [] dayCounter pg = (pg, None)"
| "build_rows month year ls firstDay daysInMonth (row # rows) dayCounter pg =
     (case build_row month year ls firstDay daysInMonth row [0..<7] dayCounter of
        Inl e \<Rightarrow> (pg, Some e)
      | Inr (tr, dayCounter') \<Rightarrow>
          build_rows month year ls firstDay daysInMonth rows dayCounter'
            (pg\<lparr>calendarBody := calendarBody pg @ [tr]\<rparr>))"

text \<open>
  Lines 48 and 49:
  \<^verbatim>\<open>const firstDay = new Date(year, month, 1).getDay();\<close> and
  \<^verbatim>\<open>const daysInMonth = new Date(year, month + 1, 0).getDate();\<close>
\<close>

definition firstDay_of :: "int \<Rightarrow> int \<Rightarrow> int option" where
  "firstDay_of month year = getDay (Date_ymd year month 1)"

definition daysInMonth_of :: "int \<Rightarrow> int \<Rightarrow> int option" where
  "daysInMonth_of month year = getDate (Date_ymd year (month + 1) 0)"

text \<open>
  \<^verbatim>\<open>buildCalendar(month, year)\<close> on the page \<open>pg\<close> with the storage \<open>ls\<close>: the page it
  leaves, and the exception that ended it, if any. When one of the two Dates is invalid,
  \<^verbatim>\<open>rowCount\<close> is \<^verbatim>\<open>NaN\<close>, \<^verbatim>\<open>row < rowCount\<close> is false and no row is built.
\<close>

definition buildCalendar ::
  "int \<Rightarrow> int \<Rightarrow> storage \<Rightarrow> page \<Rightarrow> page \<times> dom_exception option" where
  "buildCalendar month year ls pg =
     (let pg1 = pg\<lparr>calendarBody := []\<rparr>;
          pg2 = pg1\<lparr>monthYearText := monthName month @ '' '' @ Number_toString year\<rparr>;
          firstDay = firstDay_of month year;
          daysInMonth = daysInMonth_of month year
      in case (firstDay, daysInMonth) of
           (Some fd, Some dim) \<Rightarrow>
             (let totalCells = fd + dim;
                  rowCount = ceil_div7 totalCells
              in build_rows month year ls fd dim [0..<nat rowCount] 1 pg2)
         | _ \<Rightarrow> (pg2, None))"

section \<open>The events\<close>

text \<open>
  The change listener of a day cell (lines 107 to 118), created with the cell \<^verbatim>\<open>td\<close> and
  its \<^verbatim>\<open>dateStr\<close>, run with \<^verbatim>\<open>e.target.value\<close>: the cell and the storage it
  leaves, and the exception that ended it, if any (then \<^verbatim>\<open>setItem\<close> is not reached).
  \<^verbatim>\<open>if (selectedGrade)\<close> holds for every string but the empty one.
\<close>

definition change_listener ::
  "string \<Rightarrow> string \<Rightarrow> td \<Rightarrow> storage \<Rightarrow> (td \<times> storage) \<times> dom_exception option" where
  "change_listener dateStr selectedGrade cell ls =
     (let cell1 = removeGradeClasses cell in
      if selectedGrade \<noteq> [] then
        (case applyGradeClass cell1 selectedGrade of
           Inl e \<Rightarrow> ((cell1, ls), Some e)
         | Inr cell2 \<Rightarrow> ((cell2, setItem ls dateStr selectedGrade), None))
      else ((cell1, removeItem ls dateStr), None))"

text \<open>
  The state of the application: \<^verbatim>\<open>currentDate\<close> (a time value, or \<open>None\<close> for an
  invalid Date), the storage and the page.
\<close>

record app_state =
  currentDate :: "int option"
  localStorage :: storage
  doc :: page

text \<open>
  \<^verbatim>\<open>buildCalendar(currentDate.getMonth(), currentDate.getFullYear())\<close>. An exception
  that ends the call is reported by the event loop and the page stays as the call left
  it. With an invalid \<^verbatim>\<open>currentDate\<close> both arguments are \<^verbatim>\<open>NaN\<close>: the heading reads
  \<^verbatim>\<open>undefined NaN\<close> and no row is built.
\<close>

definition render :: "app_state \<Rightarrow> app_state" where
  "render st =
     (case (getMonth (currentDate st), getFullYear (currentDate st)) of
        (Some month, Some year) \<Rightarrow>
          st\<lparr>doc := fst (buildCalendar month year (localStorage st) (doc st))\<rparr>
      | _ \<Rightarrow> st\<lparr>doc := \<lparr>monthYearText = ''undefined NaN'', calendarBody = []\<rparr>\<rparr>)"

text \<open>
  \<^verbatim>\<open>prevMonthBtn.addEventListener('click', () => {
    currentDate.setMonth(currentDate.getMonth() - 1);
    buildCalendar(currentDate.getMonth(), currentDate.getFullYear());
  });\<close>
  and the same with \<^verbatim>\<open>+ 1\<close> for \<^verbatim>\<open>nextMonthBtn\<close>.
\<close>

definition prevMonth_click :: "app_state \<Rightarrow> app_state" where
  "prevMonth_click st =
     render (st\<lparr>currentDate :=
       setMonth (currentDate st) (map_option (\<lambda>m. m - 1) (getMonth (currentDate st)))\<rparr>)"

definition nextMonth_click :: "app_state \<Rightarrow> app_state" where
  "nextMonth_click st =
     render (st\<lparr>currentDate :=
       setMonth (currentDate st) (map_option (\<lambda>m. m + 1) (getMonth (currentDate st)))\<rparr>)"

text \<open>
  The user chooses the value \<open>v\<close> in the select of the cell at \<open>row\<close> and \<open>col\<close> of the
  table: the select shows \<open>v\<close> and its change listener runs. A cell outside the month
  has no select, and nothing happens.
\<close>

definition grade_change :: "nat \<Rightarrow> nat \<Rightarrow> string \<Rightarrow> app_state \<Rightarrow> app_state" where
  "grade_change row col v st =
     (let body = calendarBody (doc st) in
      if row < length body \<and> col < length (body ! row) then
        (case children (body ! row ! col) of
           None \<Rightarrow> st
         | Some c \<Rightarrow>
             (let cell = (body ! row ! col)\<lparr>children := Some (c\<lparr>selectValue := v\<rparr>)\<rparr>;
                  r = change_listener (dateKey c) v cell (localStorage st)
              in st\<lparr>localStorage := snd (fst r),
                    doc := (doc st)\<lparr>calendarBody :=
                      body[row := (body ! row)[col := fst (fst r)]]\<rparr>\<rparr>))
      else st)"

datatype event = PrevMonth | NextMonth | GradeChange nat nat string

fun step :: "app_state \<Rightarrow> event \<Rightarrow> app_state" where
  "step st PrevMonth = prevMonth_click st"
| "step st NextMonth = nextMonth_click st"
| "step st (GradeChange row col v) = grade_change row col v st"

text \<open>
  The page is loaded with \<^verbatim>\<open>currentDate = new Date()\<close>, the time value \<open>now\<close>, and
  \<^verbatim>\<open>DOMContentLoaded\<close> builds the first calendar; then the events run in turn.
\<close>

definition page_load :: "int \<Rightarrow> storage \<Rightarrow> page \<Rightarrow> app_state" where
  "page_load now ls pg = render \<lparr>currentDate = Some now, localStorage = ls, doc = pg\<rparr>"

definition run :: "int \<Rightarrow> storage \<Rightarrow> page \<Rightarrow> event list \<Rightarrow> app_state" where
  "run now ls pg evs = foldl step (page_load now ls pg) evs"

section \<open>The grid in closed form\<close>

text \<open>
  What the loops of \<^verbatim>\<open>buildCalendar\<close> compute, written without the loops; the facts
  \<open>buildCalendar_prefix\<close> and \<open>buildCalendar_None\<close> below show that the page
  \<^verbatim>\<open>buildCalendar\<close> leaves holds exactly this grid, or its first rows when an exception
  ended the call. The class and the value a day cell gets from the storage:
\<close>

definition saved_class :: "storage \<Rightarrow> string \<Rightarrow> string list" where
  "saved_class ls k =
     (case ls k of None \<Rightarrow> [] | Some v \<Rightarrow> if v = [] then [] else [''grade-'' @ toLowerCase v])"

definition saved_value :: "storage \<Rightarrow> string \<Rightarrow> string" where
  "saved_value ls k =
     (case ls k of None \<Rightarrow> [] | Some v \<Rightarrow> if v \<in> set grades then v else [])"

definition day_children :: "int \<Rightarrow> int \<Rightarrow> storage \<Rightarrow> int \<Rightarrow> day_content" where
  "day_children month year ls day =
     \<lparr>dayNumber = day, dateKey = date_key year month day,
      ariaLabel = ''Select grade for '' @ date_key year month day,
      selectValue = saved_value ls (date_key year month day)\<rparr>"

definition day_td :: "int \<Rightarrow> int \<Rightarrow> storage \<Rightarrow> int \<Rightarrow> td" where
  "day_td month year ls day =
     \<lparr>classList = saved_class ls (date_key year month day),
      children = Some (day_children month year ls day)\<rparr>"

definition grid_cell :: "int \<Rightarrow> int \<Rightarrow> storage \<Rightarrow> int \<Rightarrow> int \<Rightarrow> int \<Rightarrow> td" where
  "grid_cell month year ls fd dim i =
     (if fd \<le> i \<and> i < fd + dim then day_td month year ls (i - fd + 1)
      else \<lparr>classList = [], children = None\<rparr>)"

definition grid :: "int \<Rightarrow> int \<Rightarrow> storage \<Rightarrow> int \<Rightarrow> int \<Rightarrow> td list list" where
  "grid month year ls fd dim =
     map (\<lambda>row. map (\<lambda>col. grid_cell month year ls fd dim (int row * 7 + int col)) [0..<7])
       [0..<nat (ceil_div7 (fd + dim))]"

definition counter_at :: "int \<Rightarrow> int \<Rightarrow> int \<Rightarrow> int" where
  "counter_at fd dim i = 1 + max 0 (min dim (i - fd))"

text \<open>The storages for which \<^verbatim>\<open>classList.add\<close> cannot throw: no value has whitespace.\<close>

definition no_whitespace_values :: "storage \<Rightarrow> bool" where
  "no_whitespace_values ls = (\<forall>k v. ls k = Some v \<longrightarrow> \<not> list_ex ascii_whitespace v)"

section \<open>The classification of a cell\<close>

text \<open>
  The storages of the specification (a GradeRecord maps a date key to one of the six
  symbols); a cell with exactly one classification among none and the six grade classes;
  the events in which the value chosen is one the select offers; the cells of the table;
  and the invariant of the application: the storage holds grade symbols only and every
  cell has exactly one classification.
\<close>

definition grade_values_only :: "storage \<Rightarrow> bool" where
  "grade_values_only ls = (\<forall>k v. ls k = Some v \<longrightarrow> v \<in> set grades)"

definition one_classification :: "td \<Rightarrow> bool" where
  "one_classification cell =
     (classList cell = [] \<or> (\<exists>g\<in>set grade_classes. classList cell = [g]))"

definition offered :: "event \<Rightarrow> bool" where
  "offered e = (case e of GradeChange row col v \<Rightarrow> v \<in> set option_values | _ \<Rightarrow> True)"

definition table_cells :: "app_state \<Rightarrow> td set" where
  "table_cells st = set (concat (calendarBody (doc st)))"

definition classified :: "app_state \<Rightarrow> bool" where
  "classified st =
     (grade_values_only (localStorage st) \<and> (\<forall>cell\<in>table_cells st. one_classification cell))"

section \<open>The calendar of the specification\<close>

text \<open>
  The specification's leap-year rule: "divisible by 4 and (not divisible by 100 or
  divisible by 400)", and the lengths of the months of the Gregorian calendar
  (\<open>month\<close> counts from 0).
\<close>

definition leap_year :: "int \<Rightarrow> bool" where
  "leap_year y = (y mod 4 = 0 \<and> (y mod 100 \<noteq> 0 \<or> y mod 400 = 0))"

definition days_in_month :: "int \<Rightarrow> int \<Rightarrow> int" where
  "days_in_month year month =
     (if month = 1 then (if leap_year year then 29 else 28)
      else if month = 3 \<or> month = 5 \<or> month = 8 \<or> month = 10 then 30
      else 31)"

text \<open>
  The weekday (0 = Sunday) of the day \<open>date\<close> of a month of a year: that of its day
  number, day 0 being Thursday, 1 January 1970. \<open>civil_of_day\<close> below shows that the
  day number is the one of that year, month and day.
\<close>

definition weekday_of :: "int \<Rightarrow> int \<Rightarrow> int \<Rightarrow> int" where
  "weekday_of year month date = WeekDay (MakeDate (MakeDay year month date) 0)"

text \<open>
  The years all of whose days a Date can hold: time values reach from 20 April -271821 to
  13 September 275760.
\<close>

definition year_in_range :: "int \<Rightarrow> bool" where
  "year_in_range year = (- 271821 < year \<and> year < 275760)"

section \<open>Facts about the Date operations\<close>

subsection \<open>Years\<close>

lemma div_step:
  fixes a n :: int
  assumes n: "0 < n"
  shows "(a + 1) div n = (if (a + 1) mod n = 0 then a div n + 1 else a div n)"
proof (cases "a mod n + 1 = n")
  case True
  have "a + 1 = n * (a div n) + (a mod n + 1)"
    by simp
  also have "\<dots> = n * (a div n + 1) + 0"
    using True by (simp add: distrib_left)
  finally have e: "a + 1 = n * (a div n + 1) + 0" .
  have "(a + 1) div n = a div n + 1"
    using n e by (intro int_div_pos_eq [where r = 0]) simp_all
  moreover have "(a + 1) mod n = 0"
    using n e by (intro int_mod_pos_eq [where q = "a div n + 1"]) simp_all
  ultimately show ?thesis by simp
next
  case False
  have r: "0 \<le> a mod n + 1" "a mod n + 1 < n"
    using n False pos_mod_bound [of n a] pos_mod_sign [of n a] by linarith+
  have e: "a + 1 = n * (a div n) + (a mod n + 1)"
    by simp
  have "(a + 1) div n = a div n"
    using r e by (intro int_div_pos_eq [where r = "a mod n + 1"]) simp_all
  moreover have "(a + 1) mod n = a mod n + 1"
    using r e by (intro int_mod_pos_eq [where q = "a div n"]) simp_all
  moreover have "a mod n + 1 \<noteq> 0"
    using n pos_mod_sign [of n a] by linarith
  ultimately show ?thesis by simp
qed

lemma DayFromYear_Suc: "DayFromYear (y + 1) = DayFromYear y + DaysInYear y"
proof -
  have m4: "(y - 1968) mod 4 = 0 \<longleftrightarrow> y mod 4 = 0"
    by (simp add: mod_eq_0_iff_dvd dvd_diff_left_iff)
  have m100: "(y - 1900) mod 100 = 0 \<longleftrightarrow> y mod 100 = 0"
    by (simp add: mod_eq_0_iff_dvd dvd_diff_left_iff)
  have m400: "(y - 1600) mod 400 = 0 \<longleftrightarrow> y mod 400 = 0"
    by (simp add: mod_eq_0_iff_dvd dvd_diff_left_iff)
  have d4: "y mod 4 = 0" if "y mod 100 = 0"
    using that by (simp add: mod_eq_0_iff_dvd) (rule dvd_trans [of 4 100], simp_all)
  have d100: "y mod 100 = 0" if "y mod 400 = 0"
    using that by (simp add: mod_eq_0_iff_dvd) (rule dvd_trans [of 100 400], simp_all)
  have a: "(y + 1 - 1969) div 4 = (if y mod 4 = 0 then (y - 1969) div 4 + 1 else (y - 1969) div 4)"
    using div_step [of 4 "y - 1969"] m4 by simp
  have b: "(y + 1 - 1901) div 100 =
      (if y mod 100 = 0 then (y - 1901) div 100 + 1 else (y - 1901) div 100)"
    using div_step [of 100 "y - 1901"] m100 by simp
  have c: "(y + 1 - 1601) div 400 =
      (if y mod 400 = 0 then (y - 1601) div 400 + 1 else (y - 1601) div 400)"
    using div_step [of 400 "y - 1601"] m400 by simp
  show ?thesis
    unfolding DayFromYear_def DaysInYear_def a b c using d4 d100 by auto
qed

lemma DaysInYear_cases: "DaysInYear y = 365 \<or> DaysInYear y = 366"
  by (simp add: DaysInYear_def)

lemma DayFromYear_less_Suc: "DayFromYear y < DayFromYear (y + 1)"
  using DaysInYear_cases [of y] by (auto simp: DayFromYear_Suc)

lemma DayFromYear_mono_aux: "DayFromYear y \<le> DayFromYear (y + int n)"
proof (induction n)
  case 0
  then show ?case by simp
next
  case (Suc n)
  have "DayFromYear (y + int n) < DayFromYear (y + int n + 1)"
    by (rule DayFromYear_less_Suc)
  then show ?case using Suc by (simp add: ac_simps)
qed

lemma DayFromYear_mono: "y \<le> y' \<Longrightarrow> DayFromYear y \<le> DayFromYear y'"
  using DayFromYear_mono_aux [of y "nat (y' - y)"] by simp

lemma DayFromYear_strict_mono: "y < y' \<Longrightarrow> DayFromYear y < DayFromYear y'"
  using DayFromYear_mono [of "y + 1" y'] DayFromYear_less_Suc [of y] by simp

lemma year_search_bounds:
  "DayFromYear y \<le> d \<Longrightarrow>
   DayFromYear (year_search d y) \<le> d \<and> d < DayFromYear (year_search d y + 1)"
proof (induction d y rule: year_search.induct)
  case (1 d y)
  show ?case
  proof (cases "DayFromYear (y + 1) \<le> d")
    case True
    with 1 show ?thesis by (simp add: year_search.simps [of d y])
  next
    case False
    with 1 show ?thesis by (simp add: year_search.simps [of d y])
  qed
qed

lemma DayFromYear_1970: "DayFromYear 1970 = 0"
  by (simp add: DayFromYear_def)

lemma DayFromYear_upper_bound: "DayFromYear (1970 + int n) \<le> 366 * int n"
proof (induction n)
  case 0
  then show ?case by (simp add: DayFromYear_1970)
next
  case (Suc n)
  have "DayFromYear (1970 + int n + 1) = DayFromYear (1970 + int n) + DaysInYear (1970 + int n)"
    by (rule DayFromYear_Suc)
  with Suc DaysInYear_cases [of "1970 + int n"] show ?case
    by (auto simp: add.assoc)
qed

lemma DayFromYear_lower_bound: "DayFromYear (1970 - int n) \<le> - 365 * int n"
proof (induction n)
  case 0
  then show ?case by (simp add: DayFromYear_1970)
next
  case (Suc n)
  have "DayFromYear (1970 - int (Suc n) + 1) =
      DayFromYear (1970 - int (Suc n)) + DaysInYear (1970 - int (Suc n))"
    by (rule DayFromYear_Suc)
  moreover have "1970 - int (Suc n) + 1 = 1970 - int n"
    by simp
  ultimately show ?case
    using Suc DaysInYear_cases [of "1970 - int (Suc n)"] by auto
qed

lemma year_start_le: "DayFromYear (1970 + (if 0 \<le> d then d div 366 else d div 365)) \<le> d"
proof (cases "0 \<le> d")
  case True
  then have "0 \<le> d div 366"
    by simp
  then have "DayFromYear (1970 + d div 366) \<le> 366 * (d div 366)"
    using DayFromYear_upper_bound [of "nat (d div 366)"] by simp
  also have "\<dots> \<le> d"
    by (simp add: mult_div_mod_eq [symmetric] del: mult_div_mod_eq) 
  finally show ?thesis using True by simp
next
  case False
  then have "d div 365 \<le> 0"
    by (simp add: div_nonpos_pos_le0)
  then have "DayFromYear (1970 + d div 365) \<le> 365 * (d div 365)"
    using DayFromYear_lower_bound [of "nat (- (d div 365))"] by simp
  also have "\<dots> \<le> d"
    using pos_mod_sign [of 365 d] mult_div_mod_eq [of 365 d] by linarith
  finally show ?thesis using False by simp
qed

lemma YearFromDay_lower: "DayFromYear (YearFromDay d) \<le> d"
  unfolding YearFromDay_def using year_search_bounds [OF year_start_le] by blast

lemma YearFromDay_upper: "d < DayFromYear (YearFromDay d + 1)"
  unfolding YearFromDay_def using year_search_bounds [OF year_start_le] by blast

lemma YearFromDay_unique:
  assumes "DayFromYear y \<le> d" and "d < DayFromYear (y + 1)"
  shows "YearFromDay d = y"
proof (rule ccontr)
  assume ne: "YearFromDay d \<noteq> y"
  show False
  proof (cases "YearFromDay d < y")
    case True
    then have "DayFromYear (YearFromDay d + 1) \<le> DayFromYear y"
      by (intro DayFromYear_mono) simp
    with assms(1) YearFromDay_upper [of d] show False by linarith
  next
    case False
    with ne have "DayFromYear (y + 1) \<le> DayFromYear (YearFromDay d)"
      by (intro DayFromYear_mono) simp
    with assms(2) YearFromDay_lower [of d] show False by linarith
  qed
qed

subsection \<open>Months and days\<close>

lemma DaysInYear_leap: "DaysInYear y = (if leap_year y then 366 else 365)"
  by (simp add: DaysInYear_def leap_year_def)

lemma Day_MakeDate: "0 \<le> tod \<Longrightarrow> tod < msPerDay \<Longrightarrow> Day (MakeDate d tod) = d"
  by (simp add: Day_def MakeDate_def msPerDay_def)

lemma TimeWithinDay_MakeDate:
  "0 \<le> tod \<Longrightarrow> tod < msPerDay \<Longrightarrow> TimeWithinDay (MakeDate d tod) = tod"
  by (simp add: TimeWithinDay_def MakeDate_def msPerDay_def)

lemma month_cases:
  "0 \<le> (m::int) \<Longrightarrow> m \<le> 11 \<Longrightarrow>
   m = 0 \<or> m = 1 \<or> m = 2 \<or> m = 3 \<or> m = 4 \<or> m = 5 \<or> m = 6 \<or> m = 7 \<or> m = 8 \<or> m = 9 \<or> m = 10 \<or> m = 11"
  by arith

lemma MakeDay_in_year:
  assumes "0 \<le> m" "m \<le> 11"
  shows "MakeDay y m dt = DayFromYear y + monthStart m (if leap_year y then 1 else 0) + dt - 1"
proof -
  have "m div 12 = 0" "m mod 12 = m"
    using assms by simp_all
  then show ?thesis
    by (simp add: MakeDay_def DaysInYear_leap)
qed

lemma civil_of_day:
  assumes m: "0 \<le> m" "m \<le> 11"
    and dt: "1 \<le> dt" "dt \<le> days_in_month y m"
    and t: "Day t = MakeDay y m dt"
  shows "YearFromTime t = y" and "MonthFromTime t = m" and "DateFromTime t = dt"
proof -
  define l where "l = (if leap_year y then 1 else (0::int))"
  have lc: "l = 0 \<or> l = 1"
    by (simp add: l_def)
  note mc = month_cases [OF m]
  have diy: "DaysInYear y = 365 + l"
    by (simp add: DaysInYear_leap l_def)
  have dim: "days_in_month y m =
      (if m = 1 then 28 + l else if m = 3 \<or> m = 5 \<or> m = 8 \<or> m = 10 then 30 else 31)"
    by (simp add: days_in_month_def l_def)
  have d: "Day t = DayFromYear y + monthStart m l + dt - 1"
    using t m by (simp add: MakeDay_in_year l_def)
  have k1: "0 \<le> monthStart m l + dt - 1"
    using mc lc dt(1) by (elim disjE) (simp_all add: monthStart_def)
  have k2: "monthStart m l + dt - 1 < DaysInYear y"
    using mc lc dt(2) unfolding dim diy by (elim disjE) (simp_all add: monthStart_def)
  show y: "YearFromTime t = y"
    unfolding YearFromTime_def
    using d k1 k2 by (intro YearFromDay_unique) (simp_all add: DayFromYear_Suc)
  have dw: "DayWithinYear t = monthStart m l + dt - 1"
    by (simp add: DayWithinYear_def y d)
  have l: "InLeapYear t = l"
    by (simp add: InLeapYear_def y diy l_def)
  show mo: "MonthFromTime t = m"
    using mc lc dt unfolding dim
    by (elim disjE) (simp_all add: MonthFromTime_def Let_def dw l monthStart_def)
  show "DateFromTime t = dt"
    using mc by (elim disjE) (simp_all add: DateFromTime_def Let_def mo dw l monthStart_def)
qed

lemma MakeDay_month_end:
  assumes m: "0 \<le> m" "m \<le> 11"
  shows "MakeDay y (m + 1) 0 = MakeDay y m (days_in_month y m)"
proof (cases "m = 11")
  case True
  have "MakeDay y 12 0 = DayFromYear (y + 1) - 1"
    by (simp add: MakeDay_def monthStart_def)
  then show ?thesis
    using True by (simp add: MakeDay_in_year DayFromYear_Suc DaysInYear_leap monthStart_def days_in_month_def)
next
  case False
  with m have m1: "0 \<le> m + 1" "m + 1 \<le> 11" by simp_all
  have "MakeDay y (m + 1) 0 = DayFromYear y + monthStart (m + 1) (if leap_year y then 1 else 0) - 1"
    using MakeDay_in_year [OF m1, of y 0] by simp
  moreover have "monthStart (m + 1) (if leap_year y then 1 else 0) =
      monthStart m (if leap_year y then 1 else 0) + days_in_month y m"
    using month_cases [OF m] False
    by (elim disjE) (simp_all add: monthStart_def days_in_month_def)
  ultimately show ?thesis
    using m by (simp add: MakeDay_in_year)
qed

lemma MakeDay_bounds:
  assumes m: "0 \<le> m" "m \<le> 11" and dt: "1 \<le> dt" "dt \<le> days_in_month y m"
  shows "DayFromYear y \<le> MakeDay y m dt" and "MakeDay y m dt < DayFromYear (y + 1)"
proof -
  define l where "l = (if leap_year y then 1 else (0::int))"
  have lc: "l = 0 \<or> l = 1"
    by (simp add: l_def)
  note mc = month_cases [OF m]
  have dim: "days_in_month y m =
      (if m = 1 then 28 + l else if m = 3 \<or> m = 5 \<or> m = 8 \<or> m = 10 then 30 else 31)"
    by (simp add: days_in_month_def l_def)
  have k1: "0 \<le> monthStart m l + dt - 1"
    using mc lc dt(1) by (elim disjE) (simp_all add: monthStart_def)
  have k2: "monthStart m l + dt - 1 < 365 + l"
    using mc lc dt(2) unfolding dim by (elim disjE) (simp_all add: monthStart_def)
  show "DayFromYear y \<le> MakeDay y m dt"
    using k1 m by (simp add: MakeDay_in_year l_def)
  show "MakeDay y m dt < DayFromYear (y + 1)"
    using k2 m by (simp add: MakeDay_in_year DayFromYear_Suc DaysInYear_leap l_def split: if_splits)
qed

lemma days_in_month_pos: "28 \<le> days_in_month y m" "days_in_month y m \<le> 31"
  by (simp_all add: days_in_month_def)

lemma DayFromYear_in_range:
  assumes "year_in_range y"
  shows "- 99999745 \<le> DayFromYear y" and "DayFromYear (y + 1) \<le> 99999744"
proof -
  have "DayFromYear (- 271820) \<le> DayFromYear y"
    using assms by (intro DayFromYear_mono) (simp add: year_in_range_def)
  then show "- 99999745 \<le> DayFromYear y"
    by (simp add: DayFromYear_def)
  have "DayFromYear (y + 1) \<le> DayFromYear 275760"
    using assms by (intro DayFromYear_mono) (simp add: year_in_range_def)
  then show "DayFromYear (y + 1) \<le> 99999744"
    by (simp add: DayFromYear_def)
qed

lemma TimeClip_day: "- 100000000 \<le> d \<Longrightarrow> d \<le> 100000000 \<Longrightarrow>
    TimeClip (MakeDate d 0) = Some (MakeDate d 0)"
  by (simp add: TimeClip_def MakeDate_def msPerDay_def abs_le_iff)

text \<open>The Date of a day of a month, for the year the constructor takes the argument for.\<close>

lemma Date_ymd_valid:
  assumes yr: "yr = (if 0 \<le> year \<and> year \<le> 99 then 1900 + year else year)"
    and r: "year_in_range year"
    and m: "0 \<le> m" "m \<le> 11" and dt: "1 \<le> dt" "dt \<le> days_in_month yr m"
  shows "Date_ymd year m dt = Some (MakeDate (MakeDay yr m dt) 0)"
proof -
  have "year_in_range yr"
    using r by (auto simp: yr year_in_range_def)
  then have "- 100000000 \<le> MakeDay yr m dt" "MakeDay yr m dt \<le> 100000000"
    using MakeDay_bounds [OF m dt] DayFromYear_in_range [of yr] by linarith+
  then show ?thesis
    using TimeClip_day [of "MakeDay yr m dt"] by (simp add: Date_ymd_def yr [symmetric])
qed

lemma firstDay_of_eq:
  assumes yr: "yr = (if 0 \<le> year \<and> year \<le> 99 then 1900 + year else year)"
    and r: "year_in_range year" and m: "0 \<le> month" "month \<le> 11"
  shows "firstDay_of month year = Some (weekday_of yr month 1)"
  using Date_ymd_valid [OF yr r m, of 1] days_in_month_pos(1) [of yr month]
  by (simp add: firstDay_of_def getDay_def weekday_of_def)

lemma daysInMonth_of_eq:
  assumes yr: "yr = (if 0 \<le> year \<and> year \<le> 99 then 1900 + year else year)"
    and r: "year_in_range year" and m: "0 \<le> month" "month \<le> 11"
  shows "daysInMonth_of month year = Some (days_in_month yr month)"
proof -
  have v: "Date_ymd year month (days_in_month yr month)
      = Some (MakeDate (MakeDay yr month (days_in_month yr month)) 0)"
    using Date_ymd_valid [OF yr r m, of "days_in_month yr month"] days_in_month_pos(1) [of yr month]
    by simp
  have "Date_ymd year (month + 1) 0 = Date_ymd year month (days_in_month yr month)"
    using MakeDay_month_end [OF m, of yr] by (simp add: Date_ymd_def yr [symmetric])
  moreover have "DateFromTime (MakeDate (MakeDay yr month (days_in_month yr month)) 0)
      = days_in_month yr month"
    using days_in_month_pos(1) [of yr month]
    by (intro civil_of_day(3) [OF m, of _ yr]) (simp_all add: Day_MakeDate msPerDay_def)
  ultimately show ?thesis
    by (simp add: daysInMonth_of_def getDate_def v)
qed

lemma weekday_of_range: "0 \<le> weekday_of y m d" "weekday_of y m d < 7"
  by (simp_all add: weekday_of_def WeekDay_def)

lemma leap_year_two_digit:
  assumes "1 \<le> y" "y \<le> 99"
  shows "leap_year (1900 + y) = leap_year y"
proof -
  have a: "(1900 + y) mod 4 = y mod 4"
    using mod_add_left_eq [of 1900 4 y] by simp
  have b: "(1900 + y) mod 100 = y mod 100"
    using mod_add_left_eq [of 1900 100 y] by simp
  have c: "y mod 100 \<noteq> 0"
    using assms by simp
  show ?thesis
    by (simp add: leap_year_def a b c)
qed

subsection \<open>Every date has a day of the month; setMonth\<close>

lemma DayWithinYear_range: "0 \<le> DayWithinYear t" "DayWithinYear t < DaysInYear (YearFromTime t)"
  using YearFromDay_lower [of "Day t"] YearFromDay_upper [of "Day t"]
  by (simp_all add: DayWithinYear_def YearFromTime_def DayFromYear_Suc)

lemma MonthFromTime_range: "0 \<le> MonthFromTime t" "MonthFromTime t \<le> 11"
  by (simp_all add: MonthFromTime_def Let_def)

lemma DateFromTime_pos: "1 \<le> DateFromTime t"
proof -
  define d where "d = DayWithinYear t"
  define l where "l = InLeapYear t"
  have d0: "0 \<le> d"
    unfolding d_def by (rule DayWithinYear_range)
  have l01: "0 \<le> l"
    by (simp add: l_def InLeapYear_def)
  have m: "MonthFromTime t =
     (if d < 31 then 0 else if d < 59 + l then 1 else if d < 90 + l then 2
      else if d < 120 + l then 3 else if d < 151 + l then 4 else if d < 181 + l then 5
      else if d < 212 + l then 6 else if d < 243 + l then 7 else if d < 273 + l then 8
      else if d < 304 + l then 9 else if d < 334 + l then 10 else 11)"
    by (simp add: MonthFromTime_def Let_def d_def l_def)
  have "DateFromTime t =
     (let m = MonthFromTime t in
      if m = 0 then d + 1 else if m = 1 then d - 30 else if m = 2 then d - 58 - l
      else if m = 3 then d - 89 - l else if m = 4 then d - 119 - l
      else if m = 5 then d - 150 - l else if m = 6 then d - 180 - l
      else if m = 7 then d - 211 - l else if m = 8 then d - 242 - l
      else if m = 9 then d - 272 - l else if m = 10 then d - 303 - l else d - 333 - l)"
    by (simp add: DateFromTime_def Let_def d_def l_def)
  then show ?thesis
    unfolding m Let_def using d0 l01 by (simp split: if_splits)
qed

text \<open>A month put into \<^verbatim>\<open>setMonth\<close> one beyond either end of the year.\<close>

lemma MakeDay_month_12: "MakeDay y 12 dt = MakeDay (y + 1) 0 dt"
  by (simp add: MakeDay_def)

lemma MakeDay_month_minus_1: "MakeDay y (- 1) dt = MakeDay (y - 1) 11 dt"
  by (simp add: MakeDay_def)

lemma TimeWithinDay_range: "0 \<le> TimeWithinDay t" "TimeWithinDay t < msPerDay"
  by (simp_all add: TimeWithinDay_def msPerDay_def)

lemma TimeClip_in_range:
  assumes "- 99999745 \<le> d" "d < 99999744" "0 \<le> tod" "tod < msPerDay"
  shows "TimeClip (MakeDate d tod) = Some (MakeDate d tod)"
  using assms by (simp add: TimeClip_def MakeDate_def msPerDay_def abs_le_iff)

lemma setMonth_same_day:
  assumes m: "0 \<le> m" "m \<le> 11" and r: "year_in_range y"
    and dt: "DateFromTime t \<le> 28"
    and e: "MakeDay (YearFromTime t) m' (DateFromTime t) = MakeDay y m (DateFromTime t)"
  shows "getMonth (setMonth (Some t) (Some m')) = Some m"
    and "getFullYear (setMonth (Some t) (Some m')) = Some y"
    and "getDate (setMonth (Some t) (Some m')) = Some (DateFromTime t)"
proof -
  let ?dt = "DateFromTime t"
  let ?t' = "MakeDate (MakeDay y m ?dt) (TimeWithinDay t)"
  have d: "1 \<le> ?dt" "?dt \<le> days_in_month y m"
    using dt DateFromTime_pos [of t] days_in_month_pos(1) [of y m] by linarith+
  note b = MakeDay_bounds [OF m d] DayFromYear_in_range [OF r]
  have "TimeClip ?t' = Some ?t'"
    using b TimeWithinDay_range [of t] by (intro TimeClip_in_range) linarith+
  then have s: "setMonth (Some t) (Some m') = Some ?t'"
    by (simp add: setMonth_def e)
  have "Day ?t' = MakeDay y m ?dt"
    using TimeWithinDay_range [of t] by (rule Day_MakeDate)
  note c = civil_of_day [OF m d this]
  show "getMonth (setMonth (Some t) (Some m')) = Some m"
    by (simp add: s getMonth_def c)
  show "getFullYear (setMonth (Some t) (Some m')) = Some y"
    by (simp add: s getFullYear_def c)
  show "getDate (setMonth (Some t) (Some m')) = Some ?dt"
    by (simp add: s getDate_def c)
qed

section \<open>Facts about buildCalendar\<close>

subsection \<open>The loops build the grid\<close>

lemma classList_add_fresh:
  "classList_add [] token = Inr cl \<Longrightarrow> cl = [token]"
  by (auto simp: classList_add_def split: if_splits)

lemma day_cell_Inr:
  assumes "day_cell month year ls day = Inr cell"
  shows "cell = day_td month year ls day"
proof (cases "ls (date_key year month day)")
  case None
  with assms show ?thesis
    by (auto simp: day_cell_def Let_def day_td_def day_children_def getItem_def saved_class_def saved_value_def)
next
  case (Some v)
  show ?thesis
  proof (cases "v = []")
    case True
    with assms Some show ?thesis
      by (auto simp: day_cell_def Let_def day_td_def day_children_def getItem_def saved_class_def saved_value_def
          grades_def)
  next
    case False
    with assms Some obtain td1 where
      a: "applyGradeClass \<lparr>classList = [], children = None\<rparr> v = Inr td1" and
      c: "cell = td1\<lparr>children := Some \<lparr>dayNumber = day, dateKey = date_key year month day,
           ariaLabel = ''Select grade for '' @ date_key year month day,
           selectValue = select_set_value v\<rparr>\<rparr>"
      by (auto simp: day_cell_def getItem_def Let_def split: sum.splits)
    from a have "td1 = \<lparr>classList = [''grade-'' @ toLowerCase v], children = None\<rparr>"
      by (auto simp: applyGradeClass_def Let_def split: sum.splits dest: classList_add_fresh)
    moreover have "select_set_value v = (if v \<in> set grades then v else [])"
      using False by (simp add: select_set_value_def option_values_def)
    ultimately show ?thesis
      using c Some False by (simp add: day_td_def day_children_def saved_class_def saved_value_def)
  qed
qed

lemma build_cell_Inr:
  assumes "build_cell month year ls fd dim i dc = Inr (cell, dc')"
    and "dc = counter_at fd dim i"
  shows "cell = grid_cell month year ls fd dim i" and "dc' = counter_at fd dim (i + 1)"
proof -
  have eq: "(fd \<le> i \<and> dc \<le> dim) = (fd \<le> i \<and> i < fd + dim)"
    using assms(2) by (auto simp: counter_at_def)
  show "cell = grid_cell month year ls fd dim i"
  proof (cases "fd \<le> i \<and> i < fd + dim")
    case True
    then have "dc = i - fd + 1"
      using assms(2) by (simp add: counter_at_def)
    with True assms(1) eq show ?thesis
      by (auto simp: build_cell_def grid_cell_def split: sum.splits dest: day_cell_Inr)
  next
    case False
    with assms(1) eq show ?thesis
      by (auto simp: build_cell_def grid_cell_def)
  qed
  show "dc' = counter_at fd dim (i + 1)"
    using assms eq by (auto simp: build_cell_def counter_at_def split: sum.splits if_splits)
qed

lemma build_row_Inr:
  assumes "build_row month year ls fd dim row [c..<c + n] dc = Inr (cells, dc')"
    and "dc = counter_at fd dim (int row * 7 + int c)"
  shows "cells = map (\<lambda>col. grid_cell month year ls fd dim (int row * 7 + int col)) [c..<c + n]
    \<and> dc' = counter_at fd dim (int row * 7 + int c + int n)"
  using assms
proof (induction n arbitrary: c dc cells)
  case 0
  then show ?case by simp
next
  case (Suc n)
  have u: "[c..<c + Suc n] = c # [Suc c..<Suc c + n]"
    by (simp add: upt_conv_Cons)
  from Suc.prems(1) obtain cell dc1 cells1 where
    b: "build_cell month year ls fd dim (int row * 7 + int c) dc = Inr (cell, dc1)" and
    r: "build_row month year ls fd dim row [Suc c..<Suc c + n] dc1 = Inr (cells1, dc')" and
    cs: "cells = cell # cells1"
    unfolding u by (auto split: sum.splits)
  note bc = build_cell_Inr [OF b Suc.prems(2)]
  have "dc1 = counter_at fd dim (int row * 7 + int (Suc c))"
    using bc(2) by (simp add: ac_simps)
  from Suc.IH [OF r this] bc(1) cs show ?case
    unfolding u by (simp add: ac_simps)
qed

lemma build_rows_prefix:
  assumes "build_rows month year ls fd dim [r..<r + n] dc pg = (pg', e)"
    and "dc = counter_at fd dim (int r * 7)"
  shows "\<exists>k\<le>n. pg' = pg\<lparr>calendarBody := calendarBody pg @
      map (\<lambda>row. map (\<lambda>col. grid_cell month year ls fd dim (int row * 7 + int col)) [0..<7])
        [r..<r + k]\<rparr> \<and> (e = None \<longrightarrow> k = n)"
  using assms
proof (induction n arbitrary: r dc pg)
  case 0
  then show ?case by simp
next
  case (Suc n)
  have u: "[r..<r + Suc n] = r # [Suc r..<Suc r + n]"
    by (simp add: upt_conv_Cons)
  show ?case
  proof (cases "build_row month year ls fd dim r [0..<0 + 7] dc")
    case (Inl x)
    with Suc.prems(1) have "pg' = pg" "e = Some x"
      unfolding u by simp_all
    then show ?thesis
      by (intro exI [of _ 0]) simp
  next
    case (Inr p)
    obtain tr dc1 where p: "p = (tr, dc1)"
      by (cases p)
    have rs: "build_rows month year ls fd dim [Suc r..<Suc r + n] dc1
          (pg\<lparr>calendarBody := calendarBody pg @ [tr]\<rparr>) = (pg', e)"
      using Suc.prems(1) Inr p unfolding u by simp
    have "dc = counter_at fd dim (int r * 7 + int 0)"
      using Suc.prems(2) by simp
    note br = build_row_Inr [OF Inr [unfolded p] this]
    have "dc1 = counter_at fd dim (int (Suc r) * 7)"
      using br by (simp add: algebra_simps)
    from Suc.IH [OF rs this] obtain k where k: "k \<le> n"
      "pg' = pg\<lparr>calendarBody := calendarBody pg @ [tr]\<rparr>\<lparr>calendarBody :=
         calendarBody (pg\<lparr>calendarBody := calendarBody pg @ [tr]\<rparr>) @
         map (\<lambda>row. map (\<lambda>col. grid_cell month year ls fd dim (int row * 7 + int col)) [0..<7])
           [Suc r..<Suc r + k]\<rparr>"
      "e = None \<longrightarrow> k = n"
      by blast
    have "[r..<r + Suc k] = r # [Suc r..<Suc r + k]"
      by (simp add: upt_conv_Cons)
    with k br show ?thesis
      by (intro exI [of _ "Suc k"]) simp
  qed
qed

lemma firstDay_of_range:
  assumes "firstDay_of month year = Some fd"
  shows "0 \<le> fd" and "fd < 7"
  using assms by (auto simp: firstDay_of_def getDay_def WeekDay_def)

lemma buildCalendar_prefix:
  assumes "firstDay_of month year = Some fd" and "daysInMonth_of month year = Some dim"
  shows "\<exists>k\<le>length (grid month year ls fd dim).
    fst (buildCalendar month year ls pg) =
      \<lparr>monthYearText = monthName month @ '' '' @ Number_toString year,
       calendarBody = take k (grid month year ls fd dim)\<rparr> \<and>
    (snd (buildCalendar month year ls pg) = None \<longrightarrow> k = length (grid month year ls fd dim))"
proof -
  let ?pg2 = "pg\<lparr>calendarBody := [], monthYearText := monthName month @ '' '' @ Number_toString year\<rparr>"
  let ?n = "nat (ceil_div7 (fd + dim))"
  let ?f = "\<lambda>row. map (\<lambda>col. grid_cell month year ls fd dim (int row * 7 + int col)) [0..<7]"
  have e: "buildCalendar month year ls pg = build_rows month year ls fd dim [0..<?n] 1 ?pg2"
    using assms by (simp add: buildCalendar_def Let_def)
  obtain pg' ex where p: "build_rows month year ls fd dim [0..<?n] 1 ?pg2 = (pg', ex)"
    by (cases "build_rows month year ls fd dim [0..<?n] 1 ?pg2")
  have p0: "build_rows month year ls fd dim [0..<0 + ?n] 1 ?pg2 = (pg', ex)"
    using p by simp
  have "1 = counter_at fd dim (int 0 * 7)"
    using firstDay_of_range(1) [OF assms(1)] by (simp add: counter_at_def)
  from build_rows_prefix [OF p0 this] obtain k where k: "k \<le> ?n"
    "pg' = ?pg2\<lparr>calendarBody := calendarBody ?pg2 @ map ?f [0..<0 + k]\<rparr>"
    "ex = None \<longrightarrow> k = ?n"
    by blast
  have "map ?f [0..<k] = take k (map ?f [0..<?n])"
    using k(1) by (simp add: take_map)
  then have "pg' = \<lparr>monthYearText = monthName month @ '' '' @ Number_toString year,
       calendarBody = take k (grid month year ls fd dim)\<rparr>"
    using k(2) by (cases pg) (simp add: grid_def)
  moreover have "length (grid month year ls fd dim) = ?n"
    by (simp add: grid_def)
  ultimately show ?thesis
    unfolding e p using k(1,3) by (intro exI [of _ k]) simp
qed

lemma buildCalendar_None:
  assumes "snd (buildCalendar month year ls pg) = None"
    and "firstDay_of month year = Some fd" and "daysInMonth_of month year = Some dim"
  shows "fst (buildCalendar month year ls pg) =
    \<lparr>monthYearText = monthName month @ '' '' @ Number_toString year,
     calendarBody = grid month year ls fd dim\<rparr>"
  using buildCalendar_prefix [OF assms(2,3), of ls pg] assms(1) by auto

lemma buildCalendar_invalid:
  assumes "firstDay_of month year = None \<or> daysInMonth_of month year = None"
  shows "buildCalendar month year ls pg =
    (\<lparr>monthYearText = monthName month @ '' '' @ Number_toString year, calendarBody = []\<rparr>, None)"
  using assms by (cases pg) (auto simp: buildCalendar_def Let_def split: option.splits)

subsection \<open>When no exception is thrown\<close>

lemma ascii_whitespace_lower_char: "ascii_whitespace (lower_char c) = ascii_whitespace c"
proof -
  have "of_char (char_of (of_char c + 32 :: nat)) = (of_char c + 32 :: nat)"
    if "(of_char c :: nat) \<le> 222"
    using that by simp
  then show ?thesis
    by (auto simp: ascii_whitespace_def lower_char_def Let_def)
qed

lemma list_ex_grade_class:
  "list_ex ascii_whitespace (''grade-'' @ toLowerCase grade) = list_ex ascii_whitespace grade"
  by (simp add: toLowerCase_def list_ex_iff ascii_whitespace_lower_char) (simp add: ascii_whitespace_def)

lemma applyGradeClass_Inr:
  "\<not> list_ex ascii_whitespace grade \<Longrightarrow>
   applyGradeClass cell grade = Inr (cell\<lparr>classList :=
     (if ''grade-'' @ toLowerCase grade \<in> set (classList cell) then classList cell
      else classList cell @ [''grade-'' @ toLowerCase grade])\<rparr>)"
  using list_ex_grade_class [of grade] by (simp add: applyGradeClass_def classList_add_def)

lemma applyGradeClass_Inl:
  "list_ex ascii_whitespace grade \<Longrightarrow> applyGradeClass cell grade = Inl InvalidCharacterError"
  using list_ex_grade_class [of grade] by (simp add: applyGradeClass_def classList_add_def)

lemma day_cell_ok:
  assumes "no_whitespace_values ls"
  shows "\<exists>cell. day_cell month year ls day = Inr cell"
proof (cases "ls (date_key year month day)")
  case None
  then show ?thesis
    by (simp add: day_cell_def getItem_def Let_def)
next
  case (Some v)
  then have "\<not> list_ex ascii_whitespace v"
    using assms by (simp add: no_whitespace_values_def)
  then show ?thesis
    using Some by (simp add: day_cell_def getItem_def Let_def applyGradeClass_Inr)
qed

lemma build_cell_ok:
  assumes "no_whitespace_values ls"
  shows "\<exists>p. build_cell month year ls fd dim i dc = Inr p"
  using day_cell_ok [OF assms, of month year dc] by (auto simp: build_cell_def)

lemma build_row_ok:
  assumes "no_whitespace_values ls"
  shows "\<exists>p. build_row month year ls fd dim row cols dc = Inr p"
proof (induction cols arbitrary: dc)
  case Nil
  then show ?case by simp
next
  case (Cons col cols)
  obtain cell dc1 where "build_cell month year ls fd dim (int row * 7 + int col) dc = Inr (cell, dc1)"
    using build_cell_ok [OF assms, of month year fd dim "int row * 7 + int col" dc] by auto
  moreover obtain cells dc2 where "build_row month year ls fd dim row cols dc1 = Inr (cells, dc2)"
    using Cons.IH [of dc1] by auto
  ultimately show ?case by simp
qed

lemma build_rows_ok:
  assumes "no_whitespace_values ls"
  shows "snd (build_rows month year ls fd dim rows dc pg) = None"
proof (induction rows arbitrary: dc pg)
  case Nil
  then show ?case by simp
next
  case (Cons row rows)
  obtain tr dc1 where "build_row month year ls fd dim row [0..<7] dc = Inr (tr, dc1)"
    using build_row_ok [OF assms, of month year fd dim row "[0..<7]" dc] by auto
  then show ?case
    using Cons.IH by simp
qed

lemma buildCalendar_ok:
  assumes "no_whitespace_values ls"
  shows "snd (buildCalendar month year ls pg) = None"
  using build_rows_ok [OF assms]
  by (simp add: buildCalendar_def Let_def split: option.splits)

subsection \<open>The grid\<close>

lemma grid_length: "length (grid month year ls fd dim) = nat (ceil_div7 (fd + dim))"
  by (simp add: grid_def)

lemma grid_row_length:
  "row < length (grid month year ls fd dim) \<Longrightarrow> length (grid month year ls fd dim ! row) = 7"
  by (simp add: grid_def)

lemma grid_nth:
  "row < length (grid month year ls fd dim) \<Longrightarrow> col < 7 \<Longrightarrow>
   grid month year ls fd dim ! row ! col = grid_cell month year ls fd dim (int row * 7 + int col)"
  by (simp add: grid_def)

lemma concat_rows:
  "concat (map (\<lambda>row. map (\<lambda>col. f (int row * 7 + int col)) [0..<7]) [0..<R]) =
   map (\<lambda>i. f (int i)) [0..<7 * R]"
proof (induction R)
  case 0
  then show ?case by simp
next
  case (Suc R)
  have "[0..<7 * Suc R] = [0..<7 * R] @ [7 * R..<7 * R + 7]"
    using upt_add_eq_append [of 0 "7 * R" 7] by (simp add: add.commute)
  moreover have "map (\<lambda>i. f (int i)) [7 * R..<7 * R + 7] =
      map (\<lambda>col. f (int R * 7 + int col)) [0..<7]"
  proof -
    have "[7 * R..<7 * R + 7] = map (\<lambda>col. col + 7 * R) [0..<7]"
      using map_add_upt [of "7 * R" 7] by (simp add: add.commute)
    then show ?thesis
      by (simp add: o_def algebra_simps del: upt_Suc)
  qed
  ultimately show ?case
    using Suc by simp
qed

lemma concat_grid:
  "concat (grid month year ls fd dim) =
   map (\<lambda>i. grid_cell month year ls fd dim (int i)) [0..<7 * nat (ceil_div7 (fd + dim))]"
  unfolding grid_def by (rule concat_rows)

lemma ceil_div7_bounds: "n \<le> 7 * ceil_div7 n" "7 * ceil_div7 n < n + 7"
  unfolding ceil_div7_def by linarith+

lemma children_grid_cell:
  "children (grid_cell month year ls fd dim i) =
     (if fd \<le> i \<and> i < fd + dim then Some (day_children month year ls (i - fd + 1)) else None)"
  by (simp add: grid_cell_def day_td_def)

lemma shown_prefix:
  assumes "0 \<le> fd"
  shows "List.map_filter children (map (\<lambda>i. grid_cell month year ls fd dim (int i)) [0..<N]) =
    map (day_children month year ls) [1..min dim (int N - fd)]"
proof (induction N)
  case 0
  then show ?case
    using assms by simp
next
  case (Suc N)
  let ?g = "\<lambda>i. grid_cell month year ls fd dim (int i)"
  have split: "List.map_filter children (map ?g [0..<Suc N]) =
      List.map_filter children (map ?g [0..<N]) @ List.map_filter children [?g N]"
    by (simp add: List.map_filter_def)
  show ?case
  proof (cases "fd \<le> int N \<and> int N < fd + dim")
    case True
    then have a: "min dim (int (Suc N) - fd) = int N - fd + 1" "min dim (int N - fd) = int N - fd"
      by simp_all
    have "[1..int N - fd + 1] = [1..int N - fd] @ [int N - fd + 1]"
      using True upto_rec2 [of 1 "int N - fd + 1"] by simp
    then show ?thesis
      using True Suc unfolding split a
      by (simp add: children_grid_cell)
  next
    case False
    then have "min dim (int (Suc N) - fd) = min dim (int N - fd) \<or>
        (min dim (int (Suc N) - fd) \<le> 0 \<and> min dim (int N - fd) \<le> 0)"
      by auto
    then have "[1..min dim (int (Suc N) - fd)] = [1..min dim (int N - fd)]"
      by (elim disjE) simp_all
    then show ?thesis
      using False Suc unfolding split
      by (simp add: children_grid_cell)
  qed
qed

lemma shown_grid:
  assumes "0 \<le> fd"
  shows "List.map_filter children (concat (grid month year ls fd dim)) =
    map (day_children month year ls) [1..dim]"
proof -
  have "fd + dim \<le> 7 * ceil_div7 (fd + dim)"
    by (rule ceil_div7_bounds)
  then have "min dim (int (7 * nat (ceil_div7 (fd + dim))) - fd) = dim \<or> dim \<le> 0"
    by auto
  then have "[1..min dim (int (7 * nat (ceil_div7 (fd + dim))) - fd)] = [1..dim]"
    by (elim disjE) simp_all
  then show ?thesis
    unfolding concat_grid shown_prefix [OF assms] by simp
qed

lemma no_whitespace_values_empty: "no_whitespace_values Map.empty"
  by (simp add: no_whitespace_values_def)

lemma grid_index:
  assumes "row < length (grid month year ls fd dim)" "col < 7"
  shows "children (grid month year ls fd dim ! row ! col) =
     (if fd \<le> int row * 7 + int col \<and> int row * 7 + int col < fd + dim
      then Some (day_children month year ls (int row * 7 + int col - fd + 1)) else None)"
  using assms by (simp add: grid_nth children_grid_cell)

lemma grid_day_unique:
  assumes fd: "0 \<le> fd" and d: "1 \<le> d" "d \<le> dim"
  shows "\<exists>!p. fst p < length (grid month year ls fd dim) \<and> snd p < 7 \<and>
     map_option dayNumber (children (grid month year ls fd dim ! fst p ! snd p)) = Some d"
proof -
  let ?g = "grid month year ls fd dim"
  let ?i = "nat (fd + d - 1)"
  have "0 \<le> ceil_div7 (fd + dim)"
    using fd d ceil_div7_bounds(1) [of "fd + dim"] by linarith
  then have len: "int (length ?g) = ceil_div7 (fd + dim)"
    by (simp add: grid_length)
  have i: "int ?i = fd + d - 1"
    using fd d by simp
  have "int ?i < 7 * int (length ?g)"
    using ceil_div7_bounds(1) [of "fd + dim"] d i len by linarith
  then have "?i < length ?g * 7"
    by linarith
  then have r: "?i div 7 < length ?g"
    by (rule less_mult_imp_div_less)
  have e: "int (?i div 7) * 7 + int (?i mod 7) = fd + d - 1"
    using i by (metis mult.commute of_nat_add of_nat_mult of_nat_numeral div_mult_mod_eq)
  show ?thesis
  proof (rule ex1I [of _ "(?i div 7, ?i mod 7)"])
    show "fst (?i div 7, ?i mod 7) < length ?g \<and> snd (?i div 7, ?i mod 7) < 7 \<and>
      map_option dayNumber (children (?g ! fst (?i div 7, ?i mod 7) ! snd (?i div 7, ?i mod 7))) = Some d"
      using r d e by (simp add: grid_index day_children_def)
  next
    fix p
    assume p: "fst p < length ?g \<and> snd p < 7 \<and>
      map_option dayNumber (children (?g ! fst p ! snd p)) = Some d"
    then have "int (fst p) * 7 + int (snd p) - fd + 1 = d"
      using grid_index [of "fst p" month year ls fd dim "snd p"]
      by (auto simp: day_children_def split: if_splits)
    then have eq: "?i = snd p + fst p * 7"
      using i by linarith
    have "?i div 7 = fst p" "?i mod 7 = snd p"
      unfolding eq using p by simp_all
    then show "p = (?i div 7, ?i mod 7)"
      by (simp add: prod_eq_iff)
  qed
qed

lemma buildCalendar_body:
  assumes "no_whitespace_values ls"
    and "firstDay_of month year = Some fd" and "daysInMonth_of month year = Some dim"
  shows "calendarBody (fst (buildCalendar month year ls pg)) = grid month year ls fd dim"
  using buildCalendar_None [OF buildCalendar_ok [OF assms(1)] assms(2,3)] by simp

lemma built_days_shown:
  assumes "snd (buildCalendar month year ls pg) = None"
    and "firstDay_of month year = Some fd" and "daysInMonth_of month year = Some dim"
  shows "map dayNumber (List.map_filter children
      (concat (calendarBody (fst (buildCalendar month year ls pg))))) = [1..dim]"
proof -
  have "map dayNumber (map (day_children month year ls) [1..dim]) = map (\<lambda>d. d) [1..dim]"
    unfolding map_map by (rule map_cong) (simp_all add: day_children_def)
  then show ?thesis
    using buildCalendar_None [OF assms] shown_grid [OF firstDay_of_range(1) [OF assms(2)], of month year ls dim]
    by simp
qed

subsection \<open>Strings of numbers\<close>






subsection \<open>The cells of a page that was built\<close>

lemma nth_nth_in_concat:
  assumes "r < length xss" "c < length (xss ! r)"
  shows "xss ! r ! c \<in> set (concat xss)"
proof -
  have "xss ! r \<in> set xss"
    using assms(1) by simp
  moreover have "xss ! r ! c \<in> set (xss ! r)"
    using assms(2) by simp
  ultimately show ?thesis
    by auto
qed

lemma built_cell:
  assumes "cell \<in> set (concat (calendarBody (fst (buildCalendar month year ls pg))))"
  shows "\<exists>fd dim i. firstDay_of month year = Some fd \<and> daysInMonth_of month year = Some dim \<and>
    cell = grid_cell month year ls fd dim i"
proof (cases "firstDay_of month year = None \<or> daysInMonth_of month year = None")
  case True
  then show ?thesis
    using assms by (simp add: buildCalendar_invalid)
next
  case False
  then obtain fd dim where f: "firstDay_of month year = Some fd"
    and d: "daysInMonth_of month year = Some dim"
    by auto
  from buildCalendar_prefix [OF f d, of ls pg] obtain k where
    "fst (buildCalendar month year ls pg) =
      \<lparr>monthYearText = monthName month @ '' '' @ Number_toString year,
       calendarBody = take k (grid month year ls fd dim)\<rparr>"
    by blast
  then have "calendarBody (fst (buildCalendar month year ls pg)) = take k (grid month year ls fd dim)"
    by simp
  then have "cell \<in> set (concat (take k (grid month year ls fd dim)))"
    using assms by simp
  then have "cell \<in> set (concat (grid month year ls fd dim))"
    using set_take_subset [of k "grid month year ls fd dim"] by auto
  then obtain i where "cell = grid_cell month year ls fd dim i"
    unfolding concat_grid by auto
  with f d show ?thesis
    by blast
qed

lemma built_day_cell:
  assumes "cell \<in> set (concat (calendarBody (fst (buildCalendar month year ls pg))))"
    and "children cell = Some c"
  shows "\<exists>dim d. daysInMonth_of month year = Some dim \<and> 1 \<le> d \<and> d \<le> dim \<and>
    cell = day_td month year ls d"
proof -
  from built_cell [OF assms(1)] obtain fd dim i where
    d: "daysInMonth_of month year = Some dim" and c: "cell = grid_cell month year ls fd dim i"
    by blast
  from c assms(2) have "fd \<le> i \<and> i < fd + dim"
    by (simp add: grid_cell_def split: if_splits)
  with c d show ?thesis
    by (intro exI [of _ dim] exI [of _ "i - fd + 1"]) (simp add: grid_cell_def)
qed

lemma built_empty_cell:
  assumes "cell \<in> set (concat (calendarBody (fst (buildCalendar month year ls pg))))"
    and "children cell = None"
  shows "classList cell = []"
  using built_cell [OF assms(1)] assms(2)
  by (auto simp: grid_cell_def day_td_def split: if_splits)

lemma grid_has_day:
  assumes fd: "0 \<le> fd" and d: "1 \<le> d" "d \<le> dim"
  shows "day_td month year ls d \<in> set (concat (grid month year ls fd dim))"
proof -
  let ?i = "nat (fd + d - 1)"
  have i: "int ?i = fd + d - 1"
    using fd d by simp
  have "fd + dim \<le> 7 * ceil_div7 (fd + dim)"
    by (rule ceil_div7_bounds)
  then have "?i < 7 * nat (ceil_div7 (fd + dim))"
    using i d by linarith
  then have "?i \<in> set [0..<7 * nat (ceil_div7 (fd + dim))]"
    by simp
  then have "grid_cell month year ls fd dim (int ?i) \<in> set (concat (grid month year ls fd dim))"
    unfolding concat_grid set_map by (rule imageI)
  moreover have "grid_cell month year ls fd dim (int ?i) = day_td month year ls d"
    unfolding i using d by (simp add: grid_cell_def)
  ultimately show ?thesis
    by simp
qed

lemma built_has_day:
  assumes "firstDay_of month year = Some fd" and "daysInMonth_of month year = Some dim"
    and "1 \<le> d" "d \<le> dim" and "snd (buildCalendar month year ls pg) = None"
  shows "day_td month year ls d \<in> set (concat (calendarBody (fst (buildCalendar month year ls pg))))"
  using buildCalendar_None [OF assms(5,1,2)] grid_has_day [OF firstDay_of_range(1) [OF assms(1)] assms(3,4)]
  by simp

lemma built_key_class:
  assumes "cell \<in> set (concat (calendarBody (fst (buildCalendar month year ls pg))))"
    and "children cell = Some c"
  shows "classList cell = saved_class ls (dateKey c)" and "selectValue c = saved_value ls (dateKey c)"
  using built_day_cell [OF assms] assms(2) by (auto simp: day_td_def day_children_def)

lemma toLowerCase_A: "toLowerCase ''A'' = ''a''"
  by code_simp

lemma no_whitespace_values_setItem:
  "no_whitespace_values ls \<Longrightarrow> \<not> list_ex ascii_whitespace v \<Longrightarrow>
   no_whitespace_values (setItem ls k v)"
  by (simp add: no_whitespace_values_def setItem_def)

lemma no_whitespace_values_removeItem:
  "no_whitespace_values ls \<Longrightarrow> no_whitespace_values (removeItem ls k)"
  by (simp add: no_whitespace_values_def removeItem_def)

lemma no_whitespace_A: "\<not> list_ex ascii_whitespace ''A''"
  by code_simp

lemma toLowerCase_X: "toLowerCase ''X'' = ''x''"
  by code_simp

lemma no_whitespace_X: "\<not> list_ex ascii_whitespace ''X''"
  by code_simp

subsection \<open>The page, the heading and the change listener\<close>

lemma buildCalendar_page_independent:
  "buildCalendar month year ls pg = buildCalendar month year ls pg'"
  by (cases pg; cases pg') (simp add: buildCalendar_def)

lemma buildCalendar_heading:
  "monthYearText (fst (buildCalendar month year ls pg)) =
     monthName month @ '' '' @ Number_toString year"
proof (cases "firstDay_of month year = None \<or> daysInMonth_of month year = None")
  case True
  then show ?thesis
    by (simp add: buildCalendar_invalid)
next
  case False
  then obtain fd dim where "firstDay_of month year = Some fd" "daysInMonth_of month year = Some dim"
    by auto
  from buildCalendar_prefix [OF this, of ls pg] obtain k where
    "fst (buildCalendar month year ls pg) =
      \<lparr>monthYearText = monthName month @ '' '' @ Number_toString year,
       calendarBody = take k (grid month year ls fd dim)\<rparr>"
    by blast
  then show ?thesis
    by simp
qed

lemma render_currentDate: "currentDate (render st) = currentDate st"
  by (simp add: render_def split: option.splits)

lemma render_localStorage: "localStorage (render st) = localStorage st"
  by (simp add: render_def split: option.splits)

lemma render_heading:
  assumes "getMonth (currentDate st) = Some month" "getFullYear (currentDate st) = Some year"
  shows "monthYearText (doc (render st)) = monthName month @ '' '' @ Number_toString year"
  using assms by (simp add: render_def buildCalendar_heading)

lemma grade_class_of_grade:
  "v \<in> set grades \<Longrightarrow> ''grade-'' @ toLowerCase v \<in> set grade_classes"
proof -
  have "toLowerCase ''S'' = ''s''" "toLowerCase ''A'' = ''a''" "toLowerCase ''B'' = ''b''"
    "toLowerCase ''C'' = ''c''" "toLowerCase ''D'' = ''d''" "toLowerCase ''F'' = ''f''"
    by code_simp+
  then show "v \<in> set grades \<Longrightarrow> ''grade-'' @ toLowerCase v \<in> set grade_classes"
    by (auto simp: grades_def grade_classes_def)
qed

lemma no_whitespace_grade: "v \<in> set grades \<Longrightarrow> \<not> list_ex ascii_whitespace v"
proof -
  have "\<not> list_ex ascii_whitespace ''S''" "\<not> list_ex ascii_whitespace ''A''"
    "\<not> list_ex ascii_whitespace ''B''" "\<not> list_ex ascii_whitespace ''C''"
    "\<not> list_ex ascii_whitespace ''D''" "\<not> list_ex ascii_whitespace ''F''"
    by code_simp+
  then show "v \<in> set grades \<Longrightarrow> \<not> list_ex ascii_whitespace v"
    by (auto simp: grades_def)
qed

lemma change_listener_blank:
  "change_listener dateStr [] cell ls = ((removeGradeClasses cell, removeItem ls dateStr), None)"
  by (simp add: change_listener_def)

lemma change_listener_grade:
  assumes "v \<noteq> []" "\<not> list_ex ascii_whitespace v"
  shows "change_listener dateStr v cell ls =
    (((removeGradeClasses cell)\<lparr>classList :=
        (if ''grade-'' @ toLowerCase v \<in> set (classList (removeGradeClasses cell))
         then classList (removeGradeClasses cell)
         else classList (removeGradeClasses cell) @ [''grade-'' @ toLowerCase v])\<rparr>,
      setItem ls dateStr v), None)"
  unfolding change_listener_def Let_def applyGradeClass_Inr [OF assms(2)]
  using assms(1) by simp

lemma change_listener_whitespace:
  assumes "list_ex ascii_whitespace v"
  shows "change_listener dateStr v cell ls =
    ((removeGradeClasses cell, ls), Some InvalidCharacterError)"
proof -
  have "v \<noteq> []"
    using assms by auto
  then show ?thesis
    unfolding change_listener_def Let_def applyGradeClass_Inl [OF assms] by simp
qed

lemma whitespace_A_B: "list_ex ascii_whitespace ''A B''"
  by code_simp

subsection \<open>Values with whitespace\<close>

lemma build_cell_day_ok:
  assumes "build_cell month year ls fd dim i dc = Inr (cell, dc')"
    and "dc = counter_at fd dim i" and "fd \<le> i" "i < fd + dim"
  shows "day_cell month year ls (i - fd + 1) = Inr cell"
proof -
  have "dc = i - fd + 1"
    using assms(2-4) by (simp add: counter_at_def)
  then show ?thesis
    using assms(1,3,4) by (auto simp: build_cell_def split: sum.splits if_splits)
qed

lemma build_row_days_ok:
  assumes "build_row month year ls fd dim row [c..<c + n] dc = Inr (cells, dc')"
    and "dc = counter_at fd dim (int row * 7 + int c)"
  shows "\<forall>col\<in>set [c..<c + n].
    fd \<le> int row * 7 + int col \<and> int row * 7 + int col < fd + dim \<longrightarrow>
    (\<exists>cell. day_cell month year ls (int row * 7 + int col - fd + 1) = Inr cell)"
  using assms
proof (induction n arbitrary: c dc cells)
  case 0
  then show ?case by simp
next
  case (Suc n)
  have u: "[c..<c + Suc n] = c # [Suc c..<Suc c + n]"
    by (simp add: upt_conv_Cons)
  from Suc.prems(1) obtain cell dc1 cells1 where
    b: "build_cell month year ls fd dim (int row * 7 + int c) dc = Inr (cell, dc1)" and
    r: "build_row month year ls fd dim row [Suc c..<Suc c + n] dc1 = Inr (cells1, dc')"
    unfolding u by (auto split: sum.splits)
  have "dc1 = counter_at fd dim (int row * 7 + int (Suc c))"
    using build_cell_Inr(2) [OF b Suc.prems(2)] by (simp add: ac_simps)
  note ih = Suc.IH [OF r this]
  have "fd \<le> int row * 7 + int c \<and> int row * 7 + int c < fd + dim \<longrightarrow>
    (\<exists>cell. day_cell month year ls (int row * 7 + int c - fd + 1) = Inr cell)"
    using build_cell_day_ok [OF b Suc.prems(2)] by blast
  with ih show ?case
    unfolding u by simp
qed

lemma build_rows_days_ok:
  assumes "build_rows month year ls fd dim [r..<r + n] dc pg = (pg', None)"
    and "dc = counter_at fd dim (int r * 7)"
  shows "\<forall>row\<in>set [r..<r + n]. \<forall>col\<in>set [0..<7].
    fd \<le> int row * 7 + int col \<and> int row * 7 + int col < fd + dim \<longrightarrow>
    (\<exists>cell. day_cell month year ls (int row * 7 + int col - fd + 1) = Inr cell)"
  using assms
proof (induction n arbitrary: r dc pg)
  case 0
  then show ?case by simp
next
  case (Suc n)
  have u: "[r..<r + Suc n] = r # [Suc r..<Suc r + n]"
    by (simp add: upt_conv_Cons)
  from Suc.prems(1) obtain tr dc1 where
    b: "build_row month year ls fd dim r [0..<0 + 7] dc = Inr (tr, dc1)" and
    rs: "build_rows month year ls fd dim [Suc r..<Suc r + n] dc1
          (pg\<lparr>calendarBody := calendarBody pg @ [tr]\<rparr>) = (pg', None)"
    unfolding u by (auto split: sum.splits)
  have dc0: "dc = counter_at fd dim (int r * 7 + int 0)"
    using Suc.prems(2) by simp
  have "dc1 = counter_at fd dim (int (Suc r) * 7)"
    using build_row_Inr [OF b dc0] by (simp add: algebra_simps)
  note ih = Suc.IH [OF rs this]
  from build_row_days_ok [OF b dc0] ih show ?case
    unfolding u by simp
qed

lemma buildCalendar_days_ok:
  assumes ok: "snd (buildCalendar month year ls pg) = None"
    and f: "firstDay_of month year = Some fd" and d: "daysInMonth_of month year = Some dim"
    and day: "1 \<le> day" "day \<le> dim"
  shows "\<exists>cell. day_cell month year ls day = Inr cell"
proof -
  let ?pg2 = "pg\<lparr>calendarBody := [], monthYearText := monthName month @ '' '' @ Number_toString year\<rparr>"
  let ?n = "nat (ceil_div7 (fd + dim))"
  let ?i = "nat (fd + day - 1)"
  note fd = firstDay_of_range [OF f]
  have e: "buildCalendar month year ls pg = build_rows month year ls fd dim [0..<?n] 1 ?pg2"
    using f d by (simp add: buildCalendar_def Let_def)
  obtain pg' where p: "build_rows month year ls fd dim [0..<0 + ?n] 1 ?pg2 = (pg', None)"
    using ok e by (cases "build_rows month year ls fd dim [0..<?n] 1 ?pg2") simp
  have "1 = counter_at fd dim (int 0 * 7)"
    using fd(1) by (simp add: counter_at_def)
  note a = build_rows_days_ok [OF p this]
  have i: "int ?i = fd + day - 1"
    using fd day by simp
  have "fd + dim \<le> 7 * ceil_div7 (fd + dim)"
    by (rule ceil_div7_bounds)
  then have "?i < ?n * 7"
    using i day by linarith
  then have r: "?i div 7 \<in> set [0..<0 + ?n]"
    by (simp add: less_mult_imp_div_less)
  have c: "?i mod 7 \<in> set [0..<7]"
    by simp
  have ix: "int (?i div 7) * 7 + int (?i mod 7) = fd + day - 1"
    using i by (metis mult.commute of_nat_add of_nat_mult of_nat_numeral div_mult_mod_eq)
  from a [rule_format, OF r c] show ?thesis
    unfolding ix using day by simp
qed

lemma day_cell_whitespace:
  assumes "getItem ls (date_key year month day) = Some v" and "list_ex ascii_whitespace v"
  shows "day_cell month year ls day = Inl InvalidCharacterError"
proof -
  have "v \<noteq> []"
    using assms(2) by auto
  then show ?thesis
    using assms by (simp add: day_cell_def Let_def applyGradeClass_Inl)
qed

text \<open>
  A value with whitespace saved for a day of the month ends \<^verbatim>\<open>buildCalendar\<close> with an
  exception.
\<close>

lemma buildCalendar_whitespace:
  assumes "firstDay_of month year = Some fd" and "daysInMonth_of month year = Some dim"
    and "1 \<le> day" "day \<le> dim"
    and "getItem ls (date_key year month day) = Some v" and "list_ex ascii_whitespace v"
  shows "snd (buildCalendar month year ls pg) \<noteq> None"
proof
  assume "snd (buildCalendar month year ls pg) = None"
  from buildCalendar_days_ok [OF this assms(1-4)] day_cell_whitespace [OF assms(5,6)]
  show False
    by simp
qed

subsection \<open>The two buttons\<close>

text \<open>
  When \<^verbatim>\<open>currentDate\<close> is at most on the 28th of its month, the two buttons do move by
  one month, with the year rolling over.
\<close>

lemma nextMonth_click_up_to_28:
  assumes c: "currentDate st = Some t" and dt: "DateFromTime t \<le> 28"
    and r: "year_in_range (YearFromTime t)" "year_in_range (YearFromTime t + 1)"
  shows "getMonth (currentDate (nextMonth_click st)) =
      Some (if MonthFromTime t = 11 then 0 else MonthFromTime t + 1)"
    and "getFullYear (currentDate (nextMonth_click st)) =
      Some (if MonthFromTime t = 11 then YearFromTime t + 1 else YearFromTime t)"
proof -
  let ?m = "MonthFromTime t" and ?y = "YearFromTime t"
  let ?m' = "if ?m = 11 then 0 else ?m + 1" and ?y' = "if ?m = 11 then ?y + 1 else ?y"
  have cd: "currentDate (nextMonth_click st) = setMonth (Some t) (Some (?m + 1))"
    by (simp add: nextMonth_click_def render_currentDate c getMonth_def)
  have m: "0 \<le> ?m'" "?m' \<le> 11"
    using MonthFromTime_range [of t] by auto
  have ry: "year_in_range ?y'"
    using r by simp
  have e: "MakeDay ?y (?m + 1) (DateFromTime t) = MakeDay ?y' ?m' (DateFromTime t)"
    by (simp add: MakeDay_month_12)
  show "getMonth (currentDate (nextMonth_click st)) = Some ?m'"
    unfolding cd by (rule setMonth_same_day(1) [OF m ry dt e])
  show "getFullYear (currentDate (nextMonth_click st)) = Some ?y'"
    unfolding cd by (rule setMonth_same_day(2) [OF m ry dt e])
qed

lemma prevMonth_click_up_to_28:
  assumes c: "currentDate st = Some t" and dt: "DateFromTime t \<le> 28"
    and r: "year_in_range (YearFromTime t)" "year_in_range (YearFromTime t - 1)"
  shows "getMonth (currentDate (prevMonth_click st)) =
      Some (if MonthFromTime t = 0 then 11 else MonthFromTime t - 1)"
    and "getFullYear (currentDate (prevMonth_click st)) =
      Some (if MonthFromTime t = 0 then YearFromTime t - 1 else YearFromTime t)"
proof -
  let ?m = "MonthFromTime t" and ?y = "YearFromTime t"
  let ?m' = "if ?m = 0 then 11 else ?m - 1" and ?y' = "if ?m = 0 then ?y - 1 else ?y"
  have cd: "currentDate (prevMonth_click st) = setMonth (Some t) (Some (?m - 1))"
    by (simp add: prevMonth_click_def render_currentDate c getMonth_def)
  have m: "0 \<le> ?m'" "?m' \<le> 11"
    using MonthFromTime_range [of t] by auto
  have ry: "year_in_range ?y'"
    using r by simp
  have e: "MakeDay ?y (?m - 1) (DateFromTime t) = MakeDay ?y' ?m' (DateFromTime t)"
    by (simp add: MakeDay_month_minus_1)
  show "getMonth (currentDate (prevMonth_click st)) = Some ?m'"
    unfolding cd by (rule setMonth_same_day(1) [OF m ry dt e])
  show "getFullYear (currentDate (prevMonth_click st)) = Some ?y'"
    unfolding cd by (rule setMonth_same_day(2) [OF m ry dt e])
qed

subsection \<open>The invariant\<close>

lemma saved_class_one:
  assumes "grade_values_only ls"
  shows "saved_class ls k = [] \<or> (\<exists>g\<in>set grade_classes. saved_class ls k = [g])"
proof (cases "ls k")
  case None
  then show ?thesis
    by (simp add: saved_class_def)
next
  case (Some v)
  then have "v \<in> set grades"
    using assms by (simp add: grade_values_only_def)
  from grade_class_of_grade [OF this] show ?thesis
    using Some by (simp add: saved_class_def)
qed

lemma built_one_classification:
  assumes "grade_values_only ls"
    and "cell \<in> set (concat (calendarBody (fst (buildCalendar month year ls pg))))"
  shows "one_classification cell"
proof (cases "children cell")
  case None
  from built_empty_cell [OF assms(2) None] show ?thesis
    by (simp add: one_classification_def)
next
  case (Some c)
  from built_key_class(1) [OF assms(2) Some] saved_class_one [OF assms(1), of "dateKey c"]
  show ?thesis
    by (simp add: one_classification_def)
qed

lemma render_cells:
  assumes "grade_values_only (localStorage st)" and "cell \<in> table_cells (render st)"
  shows "one_classification cell"
proof (cases "getMonth (currentDate st)")
  case None
  then show ?thesis
    using assms(2) by (simp add: render_def table_cells_def)
next
  case m: (Some month)
  show ?thesis
  proof (cases "getFullYear (currentDate st)")
    case None
    then show ?thesis
      using assms(2) m by (simp add: render_def table_cells_def)
  next
    case (Some year)
    then have "cell \<in> set (concat (calendarBody (fst
        (buildCalendar month year (localStorage st) (doc st)))))"
      using assms(2) m by (simp add: render_def table_cells_def)
    from built_one_classification [OF assms(1) this] show ?thesis .
  qed
qed

lemma render_synchronised:
  assumes "cell \<in> table_cells (render st)" and "children cell = Some c"
  shows "classList cell = saved_class (localStorage st) (dateKey c)"
proof (cases "getMonth (currentDate st)")
  case None
  then show ?thesis
    using assms(1) by (simp add: render_def table_cells_def)
next
  case m: (Some month)
  show ?thesis
  proof (cases "getFullYear (currentDate st)")
    case None
    then show ?thesis
      using assms(1) m by (simp add: render_def table_cells_def)
  next
    case (Some year)
    then have "cell \<in> set (concat (calendarBody (fst
        (buildCalendar month year (localStorage st) (doc st)))))"
      using assms(1) m by (simp add: render_def table_cells_def)
    from built_key_class(1) [OF this assms(2)] show ?thesis .
  qed
qed

lemma concat_update_subset:
  assumes "row < length body"
  shows "set (concat (body[row := (body ! row)[col := cell']])) \<subseteq>
    insert cell' (set (concat body))"
proof
  fix x
  assume "x \<in> set (concat (body[row := (body ! row)[col := cell']]))"
  then obtain r where r: "r \<in> set (body[row := (body ! row)[col := cell']])" and x: "x \<in> set r"
    by auto
  from r set_update_subset_insert [of body row "(body ! row)[col := cell']"]
  have "r = (body ! row)[col := cell'] \<or> r \<in> set body"
    by auto
  then show "x \<in> insert cell' (set (concat body))"
  proof
    assume "r = (body ! row)[col := cell']"
    with x set_update_subset_insert [of "body ! row" col cell']
    have "x = cell' \<or> x \<in> set (body ! row)"
      by auto
    moreover have "body ! row \<in> set body"
      using assms by simp
    ultimately show ?thesis
      by auto
  next
    assume "r \<in> set body"
    with x show ?thesis
      by auto
  qed
qed

lemma change_listener_offered:
  assumes v: "v \<in> set option_values" and c: "one_classification cell"
  shows "change_listener dateStr v cell ls =
      ((cell\<lparr>classList := (if v = [] then [] else [''grade-'' @ toLowerCase v])\<rparr>,
        if v = [] then removeItem ls dateStr else setItem ls dateStr v), None)"
proof -
  have f: "removeGradeClasses cell = cell\<lparr>classList := []\<rparr>"
    using c by (auto simp: one_classification_def removeGradeClasses_def)
  show ?thesis
  proof (cases "v = []")
    case True
    then show ?thesis
      by (simp add: change_listener_blank f)
  next
    case False
    with v have g: "v \<in> set grades"
      by (simp add: option_values_def)
    from change_listener_grade [OF False no_whitespace_grade [OF g], of dateStr cell ls]
    show ?thesis
      using False by (simp add: f)
  qed
qed

lemma grade_values_only_update:
  assumes "grade_values_only ls" "v \<in> set option_values"
  shows "grade_values_only (if v = [] then removeItem ls k else setItem ls k v)"
  using assms by (auto simp: grade_values_only_def removeItem_def setItem_def option_values_def)

lemma classified_render:
  "grade_values_only (localStorage st) \<Longrightarrow> classified (render st)"
  using render_cells [of st] by (simp add: classified_def render_localStorage)

lemma classified_prevMonth_click: "classified st \<Longrightarrow> classified (prevMonth_click st)"
  unfolding prevMonth_click_def by (rule classified_render) (simp add: classified_def)

lemma classified_nextMonth_click: "classified st \<Longrightarrow> classified (nextMonth_click st)"
  unfolding nextMonth_click_def by (rule classified_render) (simp add: classified_def)

lemma grade_change_cell:
  assumes "classified st" and v: "v \<in> set option_values"
    and r: "row < length (calendarBody (doc st))" "col < length (calendarBody (doc st) ! row)"
    and c: "children (calendarBody (doc st) ! row ! col) = Some c"
  shows "grade_change row col v st =
    st\<lparr>localStorage :=
         (if v = [] then removeItem (localStorage st) (dateKey c)
          else setItem (localStorage st) (dateKey c) v),
       doc := (doc st)\<lparr>calendarBody := (calendarBody (doc st))[row :=
         (calendarBody (doc st) ! row)[col :=
           \<lparr>classList = (if v = [] then [] else [''grade-'' @ toLowerCase v]),
            children = Some (c\<lparr>selectValue := v\<rparr>)\<rparr>]]\<rparr>\<rparr>"
proof -
  let ?body = "calendarBody (doc st)"
  let ?cell = "(?body ! row ! col)\<lparr>children := Some (c\<lparr>selectValue := v\<rparr>)\<rparr>"
  have "?body ! row ! col \<in> table_cells st"
    unfolding table_cells_def using r by (rule nth_nth_in_concat)
  then have "one_classification (?body ! row ! col)"
    using assms(1) by (simp add: classified_def)
  then have "one_classification ?cell"
    by (simp add: one_classification_def)
  then have cl: "change_listener (dateKey c) v ?cell (localStorage st) =
      ((?cell\<lparr>classList := (if v = [] then [] else [''grade-'' @ toLowerCase v])\<rparr>,
        if v = [] then removeItem (localStorage st) (dateKey c)
        else setItem (localStorage st) (dateKey c) v), None)"
    by (rule change_listener_offered [OF v])
  have ce: "(?body ! row ! col)\<lparr>children := ch, classList := cl\<rparr> =
      \<lparr>classList = cl, children = ch\<rparr>" for ch cl
    by (cases "?body ! row ! col") simp
  show ?thesis
    using r c by (simp add: grade_change_def Let_def cl ce)
qed

lemma classified_grade_change:
  assumes "classified st" and v: "v \<in> set option_values"
  shows "classified (grade_change row col v st)"
proof (cases "row < length (calendarBody (doc st)) \<and> col < length (calendarBody (doc st) ! row)")
  case False
  then show ?thesis
    using assms(1) by (auto simp: grade_change_def Let_def)
next
  case True
  show ?thesis
  proof (cases "children (calendarBody (doc st) ! row ! col)")
    case None
    then show ?thesis
      using assms(1) True by (simp add: grade_change_def Let_def)
  next
    case (Some c)
    let ?new = "\<lparr>classList = (if v = [] then [] else [''grade-'' @ toLowerCase v]),
            children = Some (c\<lparr>selectValue := v\<rparr>)\<rparr>"
    note e = grade_change_cell [OF assms(1) v conjunct1 [OF True] conjunct2 [OF True] Some]
    have "table_cells (grade_change row col v st) \<subseteq> insert ?new (table_cells st)"
      unfolding e table_cells_def using concat_update_subset [OF conjunct1 [OF True], of col ?new]
      by simp
    moreover have "one_classification ?new"
    proof (cases "v = []")
      case True
      then show ?thesis
        by (simp add: one_classification_def)
    next
      case False
      with v have "v \<in> set grades"
        by (simp add: option_values_def)
      from grade_class_of_grade [OF this] False show ?thesis
        by (simp add: one_classification_def)
    qed
    moreover have "grade_values_only (localStorage (grade_change row col v st))"
      unfolding e using grade_values_only_update [OF _ v, of "localStorage st" "dateKey c"] assms(1)
      by (simp add: classified_def)
    ultimately show ?thesis
      using assms(1) by (auto simp: classified_def)
  qed
qed

lemma classified_step:
  "classified st \<Longrightarrow> offered e \<Longrightarrow> classified (step st e)"
  by (cases e)
    (simp_all add: offered_def classified_prevMonth_click classified_nextMonth_click
      classified_grade_change)

lemma classified_run:
  assumes "grade_values_only ls" and "\<forall>e\<in>set evs. offered e"
  shows "classified (run now ls pg evs)"
  using assms(2)
proof (induction evs rule: rev_induct)
  case Nil
  show ?case
    unfolding run_def page_load_def using assms(1) by (simp add: classified_render)
next
  case (snoc e evs)
  then have "classified (run now ls pg evs)" "offered e"
    by simp_all
  then have "classified (step (run now ls pg evs) e)"
    by (rule classified_step)
  then show ?case
    by (simp add: run_def)
qed

lemma run_Nil: "run now ls pg [] = page_load now ls pg"
  by (simp add: run_def)

lemma run_snoc: "run now ls pg (evs @ [e]) = step (run now ls pg evs) e"
  by (simp add: run_def)

lemma step_synchronised:
  assumes "e = PrevMonth \<or> e = NextMonth" and "cell \<in> table_cells (step st e)"
    and "children cell = Some c"
  shows "classList cell = saved_class (localStorage (step st e)) (dateKey c)"
  using assms(1)
proof
  assume e: "e = PrevMonth"
  from assms(2,3) show ?thesis
    unfolding e step.simps prevMonth_click_def render_localStorage
    by (rule render_synchronised)
next
  assume e: "e = NextMonth"
  from assms(2,3) show ?thesis
    unfolding e step.simps nextMonth_click_def render_localStorage
    by (rule render_synchronised)
qed

text \<open>The page loaded on 1 January 2024, 00:00, with a storage without whitespace.\<close>

lemma page_load_january_2024:
  assumes "no_whitespace_values ls"
  shows "page_load 1704067200000 ls pg =
    \<lparr>currentDate = Some 1704067200000, localStorage = ls,
     doc = \<lparr>monthYearText = ''January 2024'', calendarBody = grid 0 2024 ls 1 31\<rparr>\<rparr>"
proof -
  have m: "getMonth (Some 1704067200000) = Some 0"
    by code_simp
  have y: "getFullYear (Some 1704067200000) = Some 2024"
    by code_simp
  have f: "firstDay_of 0 2024 = Some 1"
    by code_simp
  have d: "daysInMonth_of 0 2024 = Some 31"
    by code_simp
  have h: "monthName 0 @ '' '' @ Number_toString 2024 = ''January 2024''"
    by code_simp
  from buildCalendar_None [OF buildCalendar_ok [OF assms] f d, of pg]
  show ?thesis
    unfolding h by (simp add: page_load_def render_def m y)
qed

lemma january_2024_cell:
  "length (grid 0 2024 ls 1 31) = 5" "length (grid 0 2024 ls 1 31 ! 0) = 7"
  "grid 0 2024 ls 1 31 ! 0 ! 5 = day_td 0 2024 ls 5"
  by (simp_all add: grid_length ceil_div7_def grid_row_length grid_nth grid_cell_def)

lemma grade_values_only_B: "grade_values_only (Map.empty(''2024-01-05'' \<mapsto> ''B''))"
  by (simp add: grade_values_only_def grades_def)

lemma grade_values_only_no_whitespace: "grade_values_only ls \<Longrightarrow> no_whitespace_values ls"
  using no_whitespace_grade by (auto simp: grade_values_only_def no_whitespace_values_def)

section \<open>The layout of a month (C1)\<close>

text \<open>
  C1, as amended. For every month from 0 to 11 and every year all of whose days a Date can
  hold, other than the years 0 to 99, when \<^verbatim>\<open>buildCalendar\<close> returns without an exception:
  every row has seven cells; the day numbers of the cells that show a day, read left to
  right and top to bottom, are 1, 2, ... up to the number of days of the month, so that
  every day is in exactly one cell; the cell at row \<open>row\<close> and column \<open>col\<close> shows the day
  \<open>row * 7 + col - fd + 1\<close> with its date key when \<open>row * 7 + col\<close> is from \<open>fd\<close> to
  \<open>fd + dim - 1\<close>, where \<open>fd\<close> is the weekday (0 = Sunday) of day 1 of the month and
  \<open>dim\<close> the number of its days, and is empty otherwise (no day number, no date key);
  so the first cell that shows a day is in the first row at column \<open>fd\<close>, the cells
  before it are empty and so are those after the last day.
\<close>

theorem month_layout:
  assumes m: "0 \<le> month" "month \<le> 11"
    and r: "year_in_range year" and y: "year < 0 \<or> 99 < year"
    and ok: "snd (buildCalendar month year ls pg) = None"
  shows "let body = calendarBody (fst (buildCalendar month year ls pg));
             fd = weekday_of year month 1;
             dim = days_in_month year month
    in (\<forall>row<length body. length (body ! row) = 7) \<and>
       map dayNumber (List.map_filter children (concat body)) = [1..dim] \<and>
       (\<forall>d\<in>{1..dim}. \<exists>!p. fst p < length body \<and> snd p < 7 \<and>
          map_option dayNumber (children (body ! fst p ! snd p)) = Some d) \<and>
       (\<forall>row<length body. \<forall>col<7.
          children (body ! row ! col) =
            (if fd \<le> int row * 7 + int col \<and> int row * 7 + int col < fd + dim
             then Some (day_children month year ls (int row * 7 + int col - fd + 1))
             else None)) \<and>
       0 < length body \<and> 0 \<le> fd \<and> fd < 7 \<and>
       (\<forall>col<nat fd. children (body ! 0 ! col) = None) \<and>
       map_option dayNumber (children (body ! 0 ! nat fd)) = Some 1"
proof -
  let ?fd = "weekday_of year month 1" and ?dim = "days_in_month year month"
  let ?g = "grid month year ls ?fd ?dim"
  have yr: "year = (if 0 \<le> year \<and> year \<le> 99 then 1900 + year else year)"
    using y by auto
  have f: "firstDay_of month year = Some ?fd"
    by (rule firstDay_of_eq [OF yr r m])
  have d: "daysInMonth_of month year = Some ?dim"
    by (rule daysInMonth_of_eq [OF yr r m])
  have body: "calendarBody (fst (buildCalendar month year ls pg)) = ?g"
    using buildCalendar_None [OF ok f d] by simp
  note fdr = weekday_of_range [of year month 1]
  note dimr = days_in_month_pos [of year month]
  have "0 < ceil_div7 (?fd + ?dim)"
    using fdr dimr ceil_div7_bounds(1) [of "?fd + ?dim"] by linarith
  then have len: "0 < length ?g"
    by (simp add: grid_length)
  have a: "\<forall>row<length ?g. length (?g ! row) = 7"
    by (simp add: grid_row_length)
  have b: "map dayNumber (List.map_filter children (concat ?g)) = [1..?dim]"
    using built_days_shown [OF ok f d] body by simp
  have c: "\<forall>d\<in>{1..?dim}. \<exists>!p. fst p < length ?g \<and> snd p < 7 \<and>
          map_option dayNumber (children (?g ! fst p ! snd p)) = Some d"
    using grid_day_unique [OF fdr(1), of _ ?dim month year ls] by simp
  have e: "\<forall>row<length ?g. \<forall>col<7. children (?g ! row ! col) =
      (if ?fd \<le> int row * 7 + int col \<and> int row * 7 + int col < ?fd + ?dim
       then Some (day_children month year ls (int row * 7 + int col - ?fd + 1)) else None)"
    by (simp add: grid_index)
  have g: "\<forall>col<nat ?fd. children (?g ! 0 ! col) = None"
    using fdr len by (auto simp: grid_index)
  have h: "map_option dayNumber (children (?g ! 0 ! nat ?fd)) = Some 1"
    using fdr dimr len by (simp add: grid_index day_children_def)
  show ?thesis
    unfolding Let_def body using a b c e len fdr g h by blast
qed

text \<open>January 2024 begins on a Monday and has 31 days.\<close>

theorem month_layout_witness:
  "map dayNumber (List.map_filter children
      (concat (calendarBody (fst (buildCalendar 0 2024 Map.empty blank_page))))) = [1..31] \<and>
   weekday_of 2024 0 1 = 1 \<and>
   children (calendarBody (fst (buildCalendar 0 2024 Map.empty blank_page)) ! 0 ! 0) = None \<and>
   map_option dayNumber
     (children (calendarBody (fst (buildCalendar 0 2024 Map.empty blank_page)) ! 0 ! 1)) = Some 1"
proof -
  have ok: "snd (buildCalendar 0 2024 Map.empty blank_page) = None"
    by (rule buildCalendar_ok) (simp add: no_whitespace_values_def)
  have w: "weekday_of 2024 0 1 = 1"
    by code_simp
  have d: "days_in_month 2024 0 = 31"
    by (simp add: days_in_month_def)
  have h: "(0::int) \<le> 0" "(0::int) \<le> 11" "year_in_range 2024" "(2024::int) < 0 \<or> 99 < (2024::int)"
    by (simp_all add: year_in_range_def)
  note L = month_layout [of 0 2024 Map.empty blank_page, OF h ok, unfolded Let_def w d]
  note a = L [THEN conjunct2, THEN conjunct1]
  note c = L [THEN conjunct2, THEN conjunct2, THEN conjunct2, THEN conjunct2, THEN conjunct2,
    THEN conjunct2, THEN conjunct2]
  have "children (calendarBody (fst (buildCalendar 0 2024 Map.empty blank_page)) ! 0 ! 0) = None"
    using c [THEN conjunct1] by simp
  moreover have "map_option dayNumber
     (children (calendarBody (fst (buildCalendar 0 2024 Map.empty blank_page)) ! 0 ! 1)) = Some 1"
    using c [THEN conjunct2] by simp
  ultimately show ?thesis
    using a w by simp
qed

text \<open>
  The claim as stated, for every year, fails for the year 1: 1 January of the year 1 is a
  Monday (weekday 1), but \<^verbatim>\<open>new Date(1, 0, 1)\<close> is 1 January 1901, a Tuesday, and the
  grid for \<open>month = 0\<close>, \<open>year = 1\<close> has its first day at column 2, with column 1 empty.
  It fails also beyond the years a Date can hold: for the year 300000 the Dates are
  invalid and the grid has no row.
\<close>

theorem two_digit_year_counterexample:
  "weekday_of 1 0 1 = 1 \<and>
   children (calendarBody (fst (buildCalendar 0 1 Map.empty blank_page)) ! 0 ! 1) = None \<and>
   map_option dayNumber
     (children (calendarBody (fst (buildCalendar 0 1 Map.empty blank_page)) ! 0 ! 2)) = Some 1 \<and>
   calendarBody (fst (buildCalendar 0 300000 Map.empty blank_page)) = []"
proof -
  have w: "weekday_of 1 0 1 = 1"
    by code_simp
  have f: "firstDay_of 0 1 = Some 2"
    by code_simp
  have d: "daysInMonth_of 0 1 = Some 31"
    by code_simp
  have "no_whitespace_values Map.empty"
    by (simp add: no_whitespace_values_def)
  from buildCalendar_body [OF this f d]
  have body: "calendarBody (fst (buildCalendar 0 1 Map.empty blank_page)) = grid 0 1 Map.empty 2 31" .
  have len: "length (grid 0 1 Map.empty 2 31) = 5"
    by (simp add: grid_length ceil_div7_def)
  have "firstDay_of 0 300000 = None"
    by code_simp
  then have far: "calendarBody (fst (buildCalendar 0 300000 Map.empty blank_page)) = []"
    by (simp add: buildCalendar_invalid)
  show ?thesis
    unfolding body using w len far by (simp add: grid_index day_children_def)
qed

section \<open>The number of rows (C2)\<close>

text \<open>
  C2, as amended. For every month from 0 to 11 and every year all of whose days a Date can
  hold, other than the years 0 to 99, when \<^verbatim>\<open>buildCalendar\<close> returns without an exception:
  the \<^verbatim>\<open>firstDay\<close> of line 48 is the weekday (0 = Sunday) of day 1 of the month and the
  \<^verbatim>\<open>daysInMonth\<close> of line 49 is the number of days of the month; the number of rows is
  \<open>ceil ((firstDay + daysInMonth) / 7)\<close>; every row has seven cells; the rows hold the
  \<open>firstDay\<close> empty cells and all the days, one row fewer would not, and no smaller number
  of rows of seven would; and the days shown are 1 to the number of days of the month,
  none cut off.
\<close>

theorem row_count:
  assumes m: "0 \<le> month" "month \<le> 11"
    and r: "year_in_range year" and y: "year < 0 \<or> 99 < year"
    and ok: "snd (buildCalendar month year ls pg) = None"
  shows "let body = calendarBody (fst (buildCalendar month year ls pg));
             fd = weekday_of year month 1;
             dim = days_in_month year month
    in firstDay_of month year = Some fd \<and> daysInMonth_of month year = Some dim \<and>
       int (length body) = ceil_div7 (fd + dim) \<and>
       (\<forall>row<length body. length (body ! row) = 7) \<and>
       fd + dim \<le> 7 * int (length body) \<and>
       7 * (int (length body) - 1) < fd + dim \<and>
       (\<forall>n. fd + dim \<le> 7 * int n \<longrightarrow> length body \<le> n) \<and>
       map dayNumber (List.map_filter children (concat body)) = [1..dim]"
proof -
  let ?fd = "weekday_of year month 1" and ?dim = "days_in_month year month"
  let ?g = "grid month year ls ?fd ?dim"
  have yr: "year = (if 0 \<le> year \<and> year \<le> 99 then 1900 + year else year)"
    using y by auto
  have f: "firstDay_of month year = Some ?fd"
    by (rule firstDay_of_eq [OF yr r m])
  have d: "daysInMonth_of month year = Some ?dim"
    by (rule daysInMonth_of_eq [OF yr r m])
  have body: "calendarBody (fst (buildCalendar month year ls pg)) = ?g"
    using buildCalendar_None [OF ok f d] by simp
  note fdr = weekday_of_range [of year month 1]
  note dimr = days_in_month_pos [of year month]
  note cb = ceil_div7_bounds [of "?fd + ?dim"]
  have "0 < ceil_div7 (?fd + ?dim)"
    using fdr dimr cb(1) by linarith
  then have len: "int (length ?g) = ceil_div7 (?fd + ?dim)"
    by (simp add: grid_length)
  have a: "\<forall>row<length ?g. length (?g ! row) = 7"
    by (simp add: grid_row_length)
  have lo: "?fd + ?dim \<le> 7 * int (length ?g)"
    using cb len by simp
  have hi: "7 * (int (length ?g) - 1) < ?fd + ?dim"
    using cb len by simp
  have least: "\<forall>n. ?fd + ?dim \<le> 7 * int n \<longrightarrow> length ?g \<le> n"
    using hi by auto
  have b: "map dayNumber (List.map_filter children (concat ?g)) = [1..?dim]"
    using built_days_shown [OF ok f d] body by simp
  show ?thesis
    unfolding Let_def body using f d len a lo hi least b by blast
qed

text \<open>
  October 2023 (\<open>month = 9\<close>) begins on a Sunday and has 31 days: 5 rows. July 2023
  (\<open>month = 6\<close>) begins on a Saturday and has 31 days: 6 rows.
\<close>

theorem row_count_witness:
  "weekday_of 2023 9 1 = 0 \<and> days_in_month 2023 9 = 31 \<and>
   length (calendarBody (fst (buildCalendar 9 2023 Map.empty blank_page))) = 5 \<and>
   weekday_of 2023 6 1 = 6 \<and> days_in_month 2023 6 = 31 \<and>
   length (calendarBody (fst (buildCalendar 6 2023 Map.empty blank_page))) = 6"
proof -
  have ok: "snd (buildCalendar month year Map.empty blank_page) = None" for month year
    by (rule buildCalendar_ok) (simp add: no_whitespace_values_def)
  have h: "year_in_range 2023" "(2023::int) < 0 \<or> 99 < (2023::int)"
    by (simp_all add: year_in_range_def)
  have oct: "weekday_of 2023 9 1 = 0" "days_in_month 2023 9 = 31"
    by code_simp+
  have jul: "weekday_of 2023 6 1 = 6" "days_in_month 2023 6 = 31"
    by code_simp+
  note O = row_count [of 9 2023 Map.empty blank_page, OF _ _ h ok, unfolded Let_def oct]
  note J = row_count [of 6 2023 Map.empty blank_page, OF _ _ h ok, unfolded Let_def jul]
  have "int (length (calendarBody (fst (buildCalendar 9 2023 Map.empty blank_page)))) = ceil_div7 (0 + 31)"
    using O by simp
  moreover have "int (length (calendarBody (fst (buildCalendar 6 2023 Map.empty blank_page)))) = ceil_div7 (6 + 31)"
    using J by simp
  ultimately show ?thesis
    using oct jul by (simp add: ceil_div7_def)
qed

text \<open>
  The claim as stated says that the grid of October 2023 has 6 rows, not 5, taking the
  month to begin on a Saturday. It begins on a Sunday and the grid has 5 rows. The claim
  as stated, for every year, fails also for the year 50: January of the year 50 begins on
  a Saturday and has 31 days, which take 6 rows, but \<^verbatim>\<open>new Date(50, 0, 1)\<close> is
  1 January 1950, a Sunday, and the grid has 5 rows. Beyond the years a Date can hold,
  for the year 300000, the grid has no row.
\<close>

theorem october_2023_counterexample:
  "weekday_of 2023 9 1 = 0 \<and> days_in_month 2023 9 = 31 \<and>
   length (calendarBody (fst (buildCalendar 9 2023 Map.empty blank_page))) = 5 \<and>
   length (calendarBody (fst (buildCalendar 9 2023 Map.empty blank_page))) \<noteq> 6 \<and>
   weekday_of 50 0 1 = 6 \<and> days_in_month 50 0 = 31 \<and> ceil_div7 (6 + 31) = 6 \<and>
   length (calendarBody (fst (buildCalendar 0 50 Map.empty blank_page))) = 5 \<and>
   calendarBody (fst (buildCalendar 9 300000 Map.empty blank_page)) = []"
proof -
  have w: "weekday_of 2023 9 1 = 0" "days_in_month 2023 9 = 31"
    "weekday_of 50 0 1 = 6" "days_in_month 50 0 = 31"
    by code_simp+
  have f: "firstDay_of 9 2023 = Some 0" "firstDay_of 0 50 = Some 0"
    by code_simp+
  have d: "daysInMonth_of 9 2023 = Some 31" "daysInMonth_of 0 50 = Some 31"
    by code_simp+
  have e: "no_whitespace_values Map.empty"
    by (simp add: no_whitespace_values_def)
  have o: "calendarBody (fst (buildCalendar 9 2023 Map.empty blank_page)) = grid 9 2023 Map.empty 0 31"
    by (rule buildCalendar_body [OF e f(1) d(1)])
  have j: "calendarBody (fst (buildCalendar 0 50 Map.empty blank_page)) = grid 0 50 Map.empty 0 31"
    by (rule buildCalendar_body [OF e f(2) d(2)])
  have "firstDay_of 9 300000 = None"
    by code_simp
  then have far: "calendarBody (fst (buildCalendar 9 300000 Map.empty blank_page)) = []"
    by (simp add: buildCalendar_invalid)
  show ?thesis
    unfolding o j using w far by (simp add: grid_length ceil_div7_def)
qed

section \<open>Navigation from the last days of a month (C3)\<close>

text \<open>
  C3 says that \<^verbatim>\<open>next\<close> yields \<open>month + 1\<close> (with the year rolling over) whatever the day
  of the month the state was initialised from. The code calls
  \<^verbatim>\<open>currentDate.setMonth(currentDate.getMonth() + 1)\<close>, which keeps the day of the month:
  when the page was opened on 31 January 2024, \<^verbatim>\<open>next\<close> asks for 31 February, which is
  2 March, and the calendar of March 2024 is built. February is skipped. (Up to the 28th
  of a month the buttons do what the claim says: \<open>nextMonth_click_up_to_28\<close> and
  \<open>prevMonth_click_up_to_28\<close> above.)
\<close>

theorem next_from_31_january:
  "getMonth (currentDate (nextMonth_click
      \<lparr>currentDate = Date_ymd 2024 0 31, localStorage = Map.empty, doc = blank_page\<rparr>)) = Some 2 \<and>
   getFullYear (currentDate (nextMonth_click
      \<lparr>currentDate = Date_ymd 2024 0 31, localStorage = Map.empty, doc = blank_page\<rparr>)) = Some 2024 \<and>
   getDate (currentDate (nextMonth_click
      \<lparr>currentDate = Date_ymd 2024 0 31, localStorage = Map.empty, doc = blank_page\<rparr>)) = Some 2 \<and>
   monthYearText (doc (nextMonth_click
      \<lparr>currentDate = Date_ymd 2024 0 31, localStorage = Map.empty, doc = blank_page\<rparr>)) =
     ''March 2024''"
proof -
  let ?st = "\<lparr>currentDate = Date_ymd 2024 0 31, localStorage = Map.empty, doc = blank_page\<rparr>"
  let ?d = "setMonth (Date_ymd 2024 0 31) (map_option (\<lambda>m. m + 1) (getMonth (Date_ymd 2024 0 31)))"
  have m: "getMonth ?d = Some 2"
    by code_simp
  have y: "getFullYear ?d = Some 2024"
    by code_simp
  have dt: "getDate ?d = Some 2"
    by code_simp
  have c: "currentDate (nextMonth_click ?st) = ?d"
    by (simp add: nextMonth_click_def render_currentDate)
  have "monthYearText (doc (nextMonth_click ?st)) = monthName 2 @ '' '' @ Number_toString 2024"
    unfolding nextMonth_click_def by (rule render_heading) (simp_all add: m y)
  moreover have "monthName 2 @ '' '' @ Number_toString 2024 = ''March 2024''"
    by code_simp
  ultimately show ?thesis
    using m y dt c by simp
qed

text \<open>The month after the click, alone.\<close>

theorem next_from_31_january_witness:
  "getMonth (currentDate (nextMonth_click
      \<lparr>currentDate = Date_ymd 2024 0 31, localStorage = Map.empty, doc = blank_page\<rparr>)) = Some 2"
  using next_from_31_january by simp

section \<open>The length of February (C4)\<close>

text \<open>
  C4, as amended. For every year all of whose days a Date can hold, apart from the year 0,
  the number of days \<^verbatim>\<open>buildCalendar\<close> computes for February (\<^verbatim>\<open>daysInMonth\<close>
  for \<open>month = 1\<close>) follows the leap-year rule of the specification: 29 when the year
  is divisible by 4 and not by 100, or divisible by 400, and 28 otherwise; and when the
  call returns without an exception, the days its grid shows are 1 to that number. The
  years 1 to 99 are included: the constructor reads them as 1901 to 1999, which are leap
  years exactly when they are.
\<close>

theorem february_days:
  assumes r: "year_in_range year" and nz: "year \<noteq> 0"
  shows "daysInMonth_of 1 year = Some (if leap_year year then 29 else 28) \<and>
    (snd (buildCalendar 1 year ls pg) = None \<longrightarrow>
       map dayNumber (List.map_filter children
         (concat (calendarBody (fst (buildCalendar 1 year ls pg))))) =
       [1..(if leap_year year then 29 else 28)])"
proof -
  define yr where "yr = (if 0 \<le> year \<and> year \<le> 99 then 1900 + year else year)"
  have "leap_year yr = leap_year year"
  proof (cases "0 \<le> year \<and> year \<le> 99")
    case True
    then show ?thesis
      unfolding yr_def using nz leap_year_two_digit [of year] by simp
  next
    case False
    then have "yr = year"
      by (auto simp: yr_def)
    then show ?thesis
      by simp
  qed
  then have dim: "days_in_month yr 1 = (if leap_year year then 29 else 28)"
    by (simp add: days_in_month_def)
  have d: "daysInMonth_of 1 year = Some (if leap_year year then 29 else 28)"
    using daysInMonth_of_eq [OF yr_def r, of 1] dim by simp
  have f: "firstDay_of 1 year = Some (weekday_of yr 1 1)"
    using firstDay_of_eq [OF yr_def r, of 1] by simp
  show ?thesis
    using d built_days_shown [OF _ f d, of ls pg] by simp
qed

text \<open>The four years the specification lists: 2024, 2023, 2000 and 1900.\<close>

theorem february_days_witness:
  "daysInMonth_of 1 2024 = Some 29 \<and> daysInMonth_of 1 2023 = Some 28 \<and>
   daysInMonth_of 1 2000 = Some 29 \<and> daysInMonth_of 1 1900 = Some 28 \<and>
   map dayNumber (List.map_filter children
     (concat (calendarBody (fst (buildCalendar 1 2024 Map.empty blank_page))))) = [1..29]"
proof -
  have r: "year_in_range 2024" "year_in_range 2023" "year_in_range 2000" "year_in_range 1900"
    by (simp_all add: year_in_range_def)
  have l: "leap_year 2024" "\<not> leap_year 2023" "leap_year 2000" "\<not> leap_year 1900"
    by (simp_all add: leap_year_def)
  have ok: "snd (buildCalendar 1 2024 Map.empty blank_page) = None"
    by (rule buildCalendar_ok [OF no_whitespace_values_empty])
  from february_days [OF r(1), of Map.empty blank_page] february_days [OF r(2), of Map.empty blank_page]
    february_days [OF r(3), of Map.empty blank_page] february_days [OF r(4), of Map.empty blank_page]
  show ?thesis
    using l ok by simp
qed

text \<open>
  The claim as stated, for every year, fails at the year 0: it is a leap year
  (divisible by 400), but \<^verbatim>\<open>new Date(0, 2, 0)\<close> is the last day of February 1900, the 28th.
  It fails also beyond the years a Date can hold: for the year 300000 the Date is invalid
  and \<^verbatim>\<open>daysInMonth\<close> is \<^verbatim>\<open>NaN\<close>.
\<close>

theorem february_year_0_counterexample:
  "leap_year 0 \<and> daysInMonth_of 1 0 = Some 28 \<and> daysInMonth_of 1 300000 = None"
  by code_simp

section \<open>The format of the date key (C5)\<close>




section \<open>Setting and clearing a grade (C6)\<close>

text \<open>
  C6, as amended. For every day of a month (\<open>day\<close> from 1 to \<^verbatim>\<open>daysInMonth\<close>, with
  the date key \<open>k\<close> of its cell) and any prior state of the storage for which the two
  rebuilds return without an exception: after \<^verbatim>\<open>setItem(k, "A")\<close> a rebuild of the month
  shows a cell with the key \<open>k\<close>, and every such cell has the class list
  \<^verbatim>\<open>grade-a\<close> alone; after \<^verbatim>\<open>removeItem(k)\<close> a rebuild shows the cell with no class, and
  \<^verbatim>\<open>getItem(k)\<close> returns \<^verbatim>\<open>null\<close>.
\<close>

theorem grade_round_trip:
  assumes f: "firstDay_of month year = Some fd" and d: "daysInMonth_of month year = Some dim"
    and day: "1 \<le> day" "day \<le> dim"
    and ok1: "snd (buildCalendar month year (setItem ls (date_key year month day) ''A'') pg) = None"
    and ok2: "snd (buildCalendar month year
        (removeItem (setItem ls (date_key year month day) ''A'') (date_key year month day)) pg') = None"
  shows "let k = date_key year month day;
             ls1 = setItem ls k ''A'';
             ls2 = removeItem ls1 k;
             body1 = calendarBody (fst (buildCalendar month year ls1 pg));
             body2 = calendarBody (fst (buildCalendar month year ls2 pg'))
    in (\<exists>cell\<in>set (concat body1). map_option dateKey (children cell) = Some k) \<and>
       (\<forall>cell\<in>set (concat body1).
          map_option dateKey (children cell) = Some k \<longrightarrow> classList cell = [''grade-a'']) \<and>
       (\<exists>cell\<in>set (concat body2). map_option dateKey (children cell) = Some k) \<and>
       (\<forall>cell\<in>set (concat body2).
          map_option dateKey (children cell) = Some k \<longrightarrow> classList cell = []) \<and>
       getItem ls2 k = None"
proof -
  define k where "k = date_key year month day"
  define ls1 where "ls1 = setItem ls k ''A''"
  define ls2 where "ls2 = removeItem ls1 k"
  let ?body1 = "calendarBody (fst (buildCalendar month year ls1 pg))"
  let ?body2 = "calendarBody (fst (buildCalendar month year ls2 pg'))"
  have s1: "saved_class ls1 k = [''grade-a'']"
    by (simp add: saved_class_def ls1_def setItem_def toLowerCase_A)
  have s2: "saved_class ls2 k = []"
    by (simp add: saved_class_def ls2_def removeItem_def)
  have e1: "\<exists>cell\<in>set (concat ?body1). map_option dateKey (children cell) = Some k"
    using built_has_day [OF f d day, of ls1 pg] ok1
    by (intro bexI [of _ "day_td month year ls1 day"])
      (simp_all add: k_def ls1_def day_td_def day_children_def)
  have e2: "\<exists>cell\<in>set (concat ?body2). map_option dateKey (children cell) = Some k"
    using built_has_day [OF f d day, of ls2 pg'] ok2
    by (intro bexI [of _ "day_td month year ls2 day"])
      (simp_all add: k_def ls1_def ls2_def day_td_def day_children_def)
  have a1: "\<forall>cell\<in>set (concat ?body1).
      map_option dateKey (children cell) = Some k \<longrightarrow> classList cell = [''grade-a'']"
  proof (intro ballI impI)
    fix cell
    assume cell: "cell \<in> set (concat ?body1)"
      and "map_option dateKey (children cell) = Some k"
    then obtain c where c: "children cell = Some c" "dateKey c = k"
      by auto
    from built_key_class(1) [OF cell c(1)] show "classList cell = [''grade-a'']"
      using c(2) s1 by simp
  qed
  have a2: "\<forall>cell\<in>set (concat ?body2).
      map_option dateKey (children cell) = Some k \<longrightarrow> classList cell = []"
  proof (intro ballI impI)
    fix cell
    assume cell: "cell \<in> set (concat ?body2)"
      and "map_option dateKey (children cell) = Some k"
    then obtain c where c: "children cell = Some c" "dateKey c = k"
      by auto
    from built_key_class(1) [OF cell c(1)] show "classList cell = []"
      using c(2) s2 by simp
  qed
  have g: "getItem ls2 k = None"
    by (simp add: getItem_def ls2_def removeItem_def)
  show ?thesis
    unfolding Let_def k_def [symmetric] ls1_def [symmetric] ls2_def [symmetric]
    using e1 a1 e2 a2 g by blast
qed

text \<open>
  From an empty storage, for 5 January 2024: the cell has the class \<^verbatim>\<open>grade-a\<close> after
  the grade is set, and no class after it is cleared.
\<close>

theorem grade_round_trip_witness:
  "(\<exists>cell\<in>set (concat (calendarBody (fst
       (buildCalendar 0 2024 (setItem Map.empty ''2024-01-05'' ''A'') blank_page)))).
      map_option dateKey (children cell) = Some ''2024-01-05'' \<and>
      classList cell = [''grade-a'']) \<and>
   (\<exists>cell\<in>set (concat (calendarBody (fst
       (buildCalendar 0 2024
          (removeItem (setItem Map.empty ''2024-01-05'' ''A'') ''2024-01-05'') blank_page)))).
      map_option dateKey (children cell) = Some ''2024-01-05'' \<and> classList cell = []) \<and>
   getItem (removeItem (setItem Map.empty ''2024-01-05'' ''A'') ''2024-01-05'') ''2024-01-05''
     = None"
proof -
  have f: "firstDay_of 0 2024 = Some 1"
    by code_simp
  have d: "daysInMonth_of 0 2024 = Some 31"
    by code_simp
  have k: "date_key 2024 0 5 = ''2024-01-05''"
    by code_simp
  have n1: "no_whitespace_values (setItem Map.empty ''2024-01-05'' ''A'')"
    by (intro no_whitespace_values_setItem no_whitespace_values_empty no_whitespace_A)
  have n2: "no_whitespace_values (removeItem (setItem Map.empty ''2024-01-05'' ''A'') ''2024-01-05'')"
    by (intro no_whitespace_values_removeItem n1)
  have day: "(1::int) \<le> 5" "(5::int) \<le> 31"
    by simp_all
  note L = grade_round_trip [OF f d day, of Map.empty blank_page blank_page,
      unfolded Let_def k, OF buildCalendar_ok [OF n1] buildCalendar_ok [OF n2]]
  then show ?thesis
    by blast
qed

text \<open>
  The claim as stated, for any prior state of the storage, fails when the storage holds
  a value with whitespace for a day of the month: with \<^verbatim>\<open>"A B"\<close> stored for 1 January
  2024, the rebuild after \<^verbatim>\<open>setItem("2024-01-05", "A")\<close> ends in the first row with the
  \<^verbatim>\<open>InvalidCharacterError\<close> of \<^verbatim>\<open>classList.add("grade-a b")\<close>, and no cell is shown.
\<close>

theorem whitespace_value_counterexample:
  "buildCalendar 0 2024
     (setItem (Map.empty(''2024-01-01'' \<mapsto> ''A B'')) ''2024-01-05'' ''A'') blank_page =
   (\<lparr>monthYearText = ''January 2024'', calendarBody = []\<rparr>, Some InvalidCharacterError)"
  by code_simp

section \<open>The values the change listener stores (C7)\<close>

text \<open>
  C7, as amended. For every grade-selection event with a value the control offers (blank,
  or one of S, A, B, C, D, F), no error is raised. The blank value clears the grade: the
  date key is removed from the storage, so that \<^verbatim>\<open>getItem\<close> returns \<^verbatim>\<open>null\<close>, and the six
  grade classes are removed from the cell. Each of the six symbols is stored under the date
  key, and the cell gets the one class of that grade in place of the six. The listener
  has no check of its own; the values outside the set are excluded by the control, which
  does not offer them. Run with any value that is not empty and has no whitespace, the
  listener stores the value under the date key and, in place of the six grade classes,
  the cell has the class \<^verbatim>\<open>grade-\<close> followed by the value in lower case, with no error.
  Run with a value that has whitespace, it removes the six grade classes, ends with the
  \<^verbatim>\<open>InvalidCharacterError\<close> of \<^verbatim>\<open>classList.add\<close> and leaves the storage as it was.
\<close>

theorem grade_selection:
  "(v \<in> set option_values \<longrightarrow>
     (\<exists>cell'. change_listener dateStr v cell ls =
        ((cell', if v = [] then removeItem ls dateStr else setItem ls dateStr v), None) \<and>
      classList cell' = filter (\<lambda>c. c \<notin> set grade_classes) (classList cell) @
        (if v = [] then [] else [''grade-'' @ toLowerCase v]) \<and>
      children cell' = children cell \<and>
      (v = [] \<longrightarrow> getItem (removeItem ls dateStr) dateStr = None) \<and>
      (v \<noteq> [] \<longrightarrow> getItem (setItem ls dateStr v) dateStr = Some v \<and> v \<in> set grades \<and>
         ''grade-'' @ toLowerCase v \<in> set grade_classes))) \<and>
   (v \<noteq> [] \<and> \<not> list_ex ascii_whitespace v \<longrightarrow>
     (\<exists>cell'. change_listener dateStr v cell ls = ((cell', setItem ls dateStr v), None) \<and>
      classList cell' =
        (if ''grade-'' @ toLowerCase v \<in> set (classList cell) \<and>
            ''grade-'' @ toLowerCase v \<notin> set grade_classes
         then filter (\<lambda>c. c \<notin> set grade_classes) (classList cell)
         else filter (\<lambda>c. c \<notin> set grade_classes) (classList cell) @
           [''grade-'' @ toLowerCase v]) \<and>
      children cell' = children cell \<and>
      getItem (setItem ls dateStr v) dateStr = Some v)) \<and>
   (list_ex ascii_whitespace v \<longrightarrow>
     change_listener dateStr v cell ls =
       ((removeGradeClasses cell, ls), Some InvalidCharacterError) \<and>
     classList (removeGradeClasses cell) =
       filter (\<lambda>c. c \<notin> set grade_classes) (classList cell) \<and>
     children (removeGradeClasses cell) = children cell)"
proof (intro conjI impI)
  assume o: "v \<in> set option_values"
  show "\<exists>cell'. change_listener dateStr v cell ls =
        ((cell', if v = [] then removeItem ls dateStr else setItem ls dateStr v), None) \<and>
      classList cell' = filter (\<lambda>c. c \<notin> set grade_classes) (classList cell) @
        (if v = [] then [] else [''grade-'' @ toLowerCase v]) \<and>
      children cell' = children cell \<and>
      (v = [] \<longrightarrow> getItem (removeItem ls dateStr) dateStr = None) \<and>
      (v \<noteq> [] \<longrightarrow> getItem (setItem ls dateStr v) dateStr = Some v \<and> v \<in> set grades \<and>
         ''grade-'' @ toLowerCase v \<in> set grade_classes)"
  proof (cases "v = []")
    case True
    then show ?thesis
      by (simp add: change_listener_blank removeGradeClasses_def getItem_def removeItem_def)
  next
    case False
    with o have g: "v \<in> set grades"
      by (simp add: option_values_def)
    note gc = grade_class_of_grade [OF g]
    then have "''grade-'' @ toLowerCase v \<notin> set (classList (removeGradeClasses cell))"
      by (simp add: removeGradeClasses_def)
    then show ?thesis
      using False g gc change_listener_grade [OF False no_whitespace_grade [OF g], of dateStr cell ls]
      by (simp add: getItem_def setItem_def removeGradeClasses_def)
  qed
next
  assume a: "v \<noteq> [] \<and> \<not> list_ex ascii_whitespace v"
  show "\<exists>cell'. change_listener dateStr v cell ls = ((cell', setItem ls dateStr v), None) \<and>
      classList cell' =
        (if ''grade-'' @ toLowerCase v \<in> set (classList cell) \<and>
            ''grade-'' @ toLowerCase v \<notin> set grade_classes
         then filter (\<lambda>c. c \<notin> set grade_classes) (classList cell)
         else filter (\<lambda>c. c \<notin> set grade_classes) (classList cell) @
           [''grade-'' @ toLowerCase v]) \<and>
      children cell' = children cell \<and>
      getItem (setItem ls dateStr v) dateStr = Some v"
    using change_listener_grade [OF conjunct1 [OF a] conjunct2 [OF a], of dateStr cell ls]
    by (auto simp: getItem_def setItem_def removeGradeClasses_def)
next
  assume w: "list_ex ascii_whitespace v"
  show "change_listener dateStr v cell ls =
       ((removeGradeClasses cell, ls), Some InvalidCharacterError)"
    by (rule change_listener_whitespace [OF w])
next
  show "classList (removeGradeClasses cell) =
       filter (\<lambda>c. c \<notin> set grade_classes) (classList cell)"
    by (simp add: removeGradeClasses_def)
next
  show "children (removeGradeClasses cell) = children cell"
    by (simp add: removeGradeClasses_def)
qed

text \<open>
  Choosing A on a cell graded B, and choosing the blank option on it; the listener run
  on that cell with the value \<^verbatim>\<open>X\<close>, and with the value \<^verbatim>\<open>A B\<close>.
\<close>

theorem grade_selection_witness:
  "change_listener ''2024-01-05'' ''A'' \<lparr>classList = [''grade-b''], children = None\<rparr> Map.empty =
     ((\<lparr>classList = [''grade-a''], children = None\<rparr>, setItem Map.empty ''2024-01-05'' ''A''), None) \<and>
   change_listener ''2024-01-05'' [] \<lparr>classList = [''grade-b''], children = None\<rparr>
     (setItem Map.empty ''2024-01-05'' ''B'') =
     ((\<lparr>classList = [], children = None\<rparr>,
       removeItem (setItem Map.empty ''2024-01-05'' ''B'') ''2024-01-05''), None) \<and>
   change_listener ''2024-01-05'' ''X'' \<lparr>classList = [''grade-b''], children = None\<rparr> Map.empty =
     ((\<lparr>classList = [''grade-x''], children = None\<rparr>, setItem Map.empty ''2024-01-05'' ''X''), None) \<and>
   change_listener ''2024-01-05'' ''A B'' \<lparr>classList = [''grade-b''], children = None\<rparr>
     (setItem Map.empty ''2024-01-05'' ''B'') =
     ((\<lparr>classList = [], children = None\<rparr>, setItem Map.empty ''2024-01-05'' ''B''),
      Some InvalidCharacterError)"
proof -
  let ?cell = "\<lparr>classList = [''grade-b''], children = None\<rparr>"
  let ?k = "''2024-01-05''"
  have a: "''A'' \<in> set option_values" and b: "[] \<in> set option_values"
    by (simp_all add: option_values_def grades_def)
  have f: "filter (\<lambda>c. c \<notin> set grade_classes) (classList ?cell) = []"
    by (simp add: grade_classes_def)
  have l: "toLowerCase ''A'' = ''a''"
    by code_simp
  have x: "''X'' \<noteq> [] \<and> \<not> list_ex ascii_whitespace ''X''"
    using no_whitespace_X by simp
  have r: "removeGradeClasses ?cell = \<lparr>classList = [], children = None\<rparr>"
    by (simp add: removeGradeClasses_def grade_classes_def)
  note A = grade_selection [of "''A''" ?k ?cell Map.empty, THEN conjunct1, rule_format, OF a]
  note B = grade_selection [of "[]" ?k ?cell "setItem Map.empty ?k ''B''", THEN conjunct1,
    rule_format, OF b]
  note X = grade_selection [of "''X''" ?k ?cell Map.empty, THEN conjunct2, THEN conjunct1,
    rule_format, OF x]
  note W = grade_selection [of "''A B''" ?k ?cell "setItem Map.empty ?k ''B''", THEN conjunct2,
    THEN conjunct2, rule_format, OF whitespace_A_B]
  from A obtain c1 where c1: "change_listener ?k ''A'' ?cell Map.empty =
      ((c1, setItem Map.empty ?k ''A''), None)"
    "classList c1 = [''grade-a'']" "children c1 = None"
    unfolding f l by auto
  from B obtain c2 where c2: "change_listener ?k [] ?cell (setItem Map.empty ?k ''B'') =
      ((c2, removeItem (setItem Map.empty ?k ''B'') ?k), None)"
    "classList c2 = []" "children c2 = None"
    unfolding f by auto
  from X obtain c3 where c3: "change_listener ?k ''X'' ?cell Map.empty =
      ((c3, setItem Map.empty ?k ''X''), None)"
    "classList c3 = [''grade-x'']" "children c3 = None"
    unfolding f toLowerCase_X by auto
  have "c1 = \<lparr>classList = [''grade-a''], children = None\<rparr>"
    using c1(2,3) by (cases c1) simp
  moreover have "c2 = \<lparr>classList = [], children = None\<rparr>"
    using c2(2,3) by (cases c2) simp
  moreover have "c3 = \<lparr>classList = [''grade-x''], children = None\<rparr>"
    using c3(2,3) by (cases c3) simp
  ultimately show ?thesis
    using c1(1) c2(1) c3(1) W [THEN conjunct1] r by simp
qed

text \<open>
  The claim as stated, for any value outside the set, fails for the listener: run with
  the value \<^verbatim>\<open>X\<close>, it stores \<^verbatim>\<open>X\<close> under the date key and adds the class
  \<^verbatim>\<open>grade-x\<close>; only the empty string takes the branch that clears. Run with the
  value \<^verbatim>\<open>A B\<close>, it raises an error.
\<close>

theorem out_of_set_value_counterexample:
  "snd (change_listener ''2024-01-05'' ''X'' \<lparr>classList = [], children = None\<rparr> Map.empty) = None \<and>
   getItem (snd (fst (change_listener ''2024-01-05'' ''X''
      \<lparr>classList = [], children = None\<rparr> Map.empty))) ''2024-01-05'' = Some ''X'' \<and>
   classList (fst (fst (change_listener ''2024-01-05'' ''X''
      \<lparr>classList = [], children = None\<rparr> Map.empty))) = [''grade-x''] \<and>
   snd (change_listener ''2024-01-05'' ''A B'' \<lparr>classList = [], children = None\<rparr> Map.empty) =
     Some InvalidCharacterError"
  using change_listener_grade [OF _ no_whitespace_X, of "''2024-01-05''"
      "\<lparr>classList = [], children = None\<rparr>" Map.empty]
    change_listener_whitespace [OF whitespace_A_B, of "''2024-01-05''"
      "\<lparr>classList = [], children = None\<rparr>" Map.empty]
  by (simp add: toLowerCase_X getItem_def setItem_def removeGradeClasses_def)

section \<open>One classification for each cell (C8)\<close>

text \<open>
  C8, as amended. Provided the storage holds grade symbols only when the page is loaded
  and every value chosen is one the select offers: at every point, after the first build
  and after every event (a click on previous or next, a change of grade), the storage
  still holds grade symbols only and every cell has exactly one classification among none,
  \<^verbatim>\<open>grade-s\<close>, \<^verbatim>\<open>grade-a\<close>, \<^verbatim>\<open>grade-b\<close>, \<^verbatim>\<open>grade-c\<close>, \<^verbatim>\<open>grade-d\<close> and \<^verbatim>\<open>grade-f\<close>,
  never two grade classes. The classification is recomputed from the storage on load and on
  every rebuild (the class of a day cell is that of the value saved under its key), and
  from the selected value on every change event (the class of the selected grade, or none
  for the blank value).
\<close>

theorem one_classification_invariant:
  assumes "grade_values_only ls" and "\<forall>e\<in>set evs. offered e"
  shows "let st = run now ls pg evs; body = calendarBody (doc st)
    in grade_values_only (localStorage st) \<and>
       (\<forall>cell\<in>table_cells st. one_classification cell) \<and>
       (\<forall>cell\<in>table_cells (page_load now ls pg). \<forall>c. children cell = Some c \<longrightarrow>
          classList cell = saved_class ls (dateKey c)) \<and>
       (\<forall>e cell c. (e = PrevMonth \<or> e = NextMonth) \<and> cell \<in> table_cells (step st e) \<and>
          children cell = Some c \<longrightarrow>
          classList cell = saved_class (localStorage (step st e)) (dateKey c)) \<and>
       (\<forall>row col v c. v \<in> set option_values \<and> row < length body \<and> col < length (body ! row) \<and>
          children (body ! row ! col) = Some c \<longrightarrow>
          classList (calendarBody (doc (step st (GradeChange row col v))) ! row ! col) =
            (if v = [] then [] else [''grade-'' @ toLowerCase v]))"
proof -
  define st where "st = run now ls pg evs"
  let ?body = "calendarBody (doc st)"
  have c: "classified st"
    unfolding st_def by (rule classified_run [OF assms])
  have l: "\<forall>cell\<in>table_cells (page_load now ls pg). \<forall>c. children cell = Some c \<longrightarrow>
      classList cell = saved_class ls (dateKey c)"
    unfolding page_load_def using render_synchronised by fastforce
  have n: "\<forall>e cell c. (e = PrevMonth \<or> e = NextMonth) \<and> cell \<in> table_cells (step st e) \<and>
      children cell = Some c \<longrightarrow>
      classList cell = saved_class (localStorage (step st e)) (dateKey c)"
    using step_synchronised by blast
  have g: "classList (calendarBody (doc (step st (GradeChange row col v))) ! row ! col) =
      (if v = [] then [] else [''grade-'' @ toLowerCase v])"
    if "v \<in> set option_values \<and> row < length ?body \<and> col < length (?body ! row) \<and>
      children (?body ! row ! col) = Some c" for row col v c
  proof -
    from that have v: "v \<in> set option_values" and r: "row < length ?body" "col < length (?body ! row)"
      and ch: "children (?body ! row ! col) = Some c"
      by simp_all
    show ?thesis
      unfolding step.simps grade_change_cell [OF c v r ch] using r by simp
  qed
  show ?thesis
    unfolding Let_def st_def [symmetric] using c l n g by (simp add: classified_def)
qed

text \<open>
  The page loaded on 1 January 2024 with the grade B saved for 5 January: the cell is
  classified \<^verbatim>\<open>grade-b\<close>, and \<^verbatim>\<open>grade-a\<close> after A is chosen.
\<close>

theorem one_classification_invariant_witness:
  "grade_values_only (localStorage (run 1704067200000 (Map.empty(''2024-01-05'' \<mapsto> ''B''))
      blank_page [GradeChange 0 5 ''A''])) \<and>
   classList (calendarBody (doc (run 1704067200000 (Map.empty(''2024-01-05'' \<mapsto> ''B''))
      blank_page [])) ! 0 ! 5) = [''grade-b''] \<and>
   classList (calendarBody (doc (run 1704067200000 (Map.empty(''2024-01-05'' \<mapsto> ''B''))
      blank_page [GradeChange 0 5 ''A''])) ! 0 ! 5) = [''grade-a'']"
proof -
  let ?ls = "Map.empty(''2024-01-05'' \<mapsto> ''B'')"
  let ?st = "run 1704067200000 ?ls blank_page []"
  have k: "date_key 2024 0 5 = ''2024-01-05''"
    by code_simp
  have lo: "toLowerCase ''A'' = ''a''" "toLowerCase ''B'' = ''b''"
    by code_simp+
  have st: "?st = \<lparr>currentDate = Some 1704067200000, localStorage = ?ls,
     doc = \<lparr>monthYearText = ''January 2024'', calendarBody = grid 0 2024 ?ls 1 31\<rparr>\<rparr>"
    unfolding run_Nil
    by (rule page_load_january_2024 [OF grade_values_only_no_whitespace [OF grade_values_only_B]])
  have o1: "\<forall>e\<in>set [GradeChange 0 5 ''A'']. offered e"
    by (simp add: offered_def option_values_def grades_def)
  have o0: "\<forall>e\<in>set []. offered e"
    by simp
  have a: "grade_values_only (localStorage (run 1704067200000 ?ls blank_page [GradeChange 0 5 ''A'']))"
    using one_classification_invariant [OF grade_values_only_B o1, of 1704067200000 blank_page]
    by (simp add: Let_def)
  have b: "classList (calendarBody (doc ?st) ! 0 ! 5) = [''grade-b'']"
    unfolding st by (simp add: january_2024_cell day_td_def saved_class_def k lo)
  have ch: "children (calendarBody (doc ?st) ! 0 ! 5) = Some (day_children 0 2024 ?ls 5)"
    unfolding st by (simp add: january_2024_cell day_td_def)
  have v: "''A'' \<in> set option_values"
    by (simp add: option_values_def grades_def)
  have len: "0 < length (calendarBody (doc ?st))" "5 < length (calendarBody (doc ?st) ! 0)"
    unfolding st by (simp_all add: january_2024_cell)
  from one_classification_invariant [OF grade_values_only_B o0, of 1704067200000 blank_page,
      unfolded Let_def]
  have "\<forall>row col v c. v \<in> set option_values \<and> row < length (calendarBody (doc ?st)) \<and>
      col < length (calendarBody (doc ?st) ! row) \<and>
      children (calendarBody (doc ?st) ! row ! col) = Some c \<longrightarrow>
      classList (calendarBody (doc (step ?st (GradeChange row col v))) ! row ! col) =
        (if v = [] then [] else [''grade-'' @ toLowerCase v])"
    by blast
  from this [rule_format, of "''A''" 0 5, OF conjI [OF v conjI [OF len(1) conjI [OF len(2) ch]]]]
  have "classList (calendarBody (doc (step ?st (GradeChange 0 5 ''A''))) ! 0 ! 5) = [''grade-a'']"
    by (simp add: lo)
  moreover have "run 1704067200000 ?ls blank_page [GradeChange 0 5 ''A''] =
      step ?st (GradeChange 0 5 ''A'')"
    using run_snoc [of 1704067200000 ?ls blank_page "[]"] by simp
  ultimately show ?thesis
    using a b by simp
qed

text \<open>
  The claim as stated, at every point, fails when the storage holds a value outside the
  six symbols: with \<^verbatim>\<open>X\<close> saved for 5 January 2024 the cell is loaded with the class
  \<^verbatim>\<open>grade-x\<close>, which \<^verbatim>\<open>removeGradeClasses\<close> does not remove, and after A is chosen it
  has the two classes \<^verbatim>\<open>grade-x\<close> and \<^verbatim>\<open>grade-a\<close>.
\<close>

theorem two_classes_counterexample:
  "classList (calendarBody (doc (run 1704067200000 (Map.empty(''2024-01-05'' \<mapsto> ''X''))
      blank_page [GradeChange 0 5 ''A''])) ! 0 ! 5) = [''grade-x'', ''grade-a'']"
proof -
  let ?ls = "Map.empty(''2024-01-05'' \<mapsto> ''X'')"
  let ?st = "page_load 1704067200000 ?ls blank_page"
  let ?c = "day_children 0 2024 ?ls 5"
  have k: "date_key 2024 0 5 = ''2024-01-05''"
    by code_simp
  have lo: "toLowerCase ''A'' = ''a''"
    by code_simp
  have n: "no_whitespace_values ?ls"
    using no_whitespace_values_setItem [OF no_whitespace_values_empty no_whitespace_X, of "''2024-01-05''"]
    by (simp add: setItem_def)
  note st = page_load_january_2024 [OF n, of blank_page]
  have cell: "calendarBody (doc ?st) ! 0 ! 5 = \<lparr>classList = [''grade-x''], children = Some ?c\<rparr>"
    unfolding st by (simp add: january_2024_cell day_td_def saved_class_def k toLowerCase_X)
  have cl: "change_listener (dateKey ?c) ''A''
      \<lparr>classList = [''grade-x''], children = Some (?c\<lparr>selectValue := ''A''\<rparr>)\<rparr> ?ls =
      ((\<lparr>classList = [''grade-x'', ''grade-a''], children = Some (?c\<lparr>selectValue := ''A''\<rparr>)\<rparr>,
        setItem ?ls (dateKey ?c) ''A''), None)"
    using change_listener_grade [OF _ no_whitespace_A, of "dateKey ?c"
        "\<lparr>classList = [''grade-x''], children = Some (?c\<lparr>selectValue := ''A''\<rparr>)\<rparr>" ?ls]
    by (simp add: removeGradeClasses_def grade_classes_def lo)
  have len: "0 < length (calendarBody (doc ?st))" "5 < length (calendarBody (doc ?st) ! 0)"
    unfolding st by (simp_all add: january_2024_cell)
  have ls: "localStorage ?st = ?ls"
    unfolding st by simp
  have "calendarBody (doc (grade_change 0 5 ''A'' ?st)) ! 0 ! 5 =
      \<lparr>classList = [''grade-x'', ''grade-a''], children = Some (?c\<lparr>selectValue := ''A''\<rparr>)\<rparr>"
    using len cell by (simp add: grade_change_def Let_def ls cl)
  then show ?thesis
    by (simp add: run_def)
qed

section \<open>Rebuilding replaces the page (C9)\<close>

text \<open>
  C9. For every month, year and storage, \<^verbatim>\<open>buildCalendar\<close> run on the page it has just
  built gives the same page (and the same exception, if any) as the first run, and run
  on a page built before for any other month, year and storage it gives what it gives on
  any page: nothing of what was rendered before is left.
\<close>

theorem rebuild_idempotent:
  "buildCalendar month year ls (fst (buildCalendar month year ls pg)) =
     buildCalendar month year ls pg \<and>
   buildCalendar month year ls (fst (buildCalendar month' year' ls' pg')) =
     buildCalendar month year ls pg"
  using buildCalendar_page_independent by blast

text \<open>January 2024 built twice, and built after December 2023.\<close>

theorem rebuild_idempotent_witness:
  "buildCalendar 0 2024 Map.empty (fst (buildCalendar 0 2024 Map.empty blank_page)) =
     buildCalendar 0 2024 Map.empty blank_page \<and>
   buildCalendar 0 2024 Map.empty (fst (buildCalendar 11 2023 Map.empty blank_page)) =
     buildCalendar 0 2024 Map.empty blank_page"
  using rebuild_idempotent [of 0 2024 Map.empty blank_page 11 2023 Map.empty blank_page]
  by simp

section \<open>A saved value is applied as it is (C10)\<close>

text \<open>
  C10, as amended. For every non-empty string \<open>v\<close> stored at the date key of a day of the
  month, among S, A, B, C, D, F or not: every cell a rebuild shows for that key has the
  class \<^verbatim>\<open>grade-\<close> followed by \<open>v\<close> in lower case, and no other class, with no check of
  \<open>v\<close> against the six symbols; its select shows \<open>v\<close> when \<open>v\<close> is one of the six symbols,
  and otherwise the blank option (no option has the value \<open>v\<close>, so the assignment selects
  none). The cell is shown when the rebuild returns without an exception; when \<open>v\<close> has
  ASCII whitespace, the rebuild ends with an exception.
\<close>

theorem saved_value_applied:
  assumes f: "firstDay_of month year = Some fd" and d: "daysInMonth_of month year = Some dim"
    and day: "1 \<le> day" "day \<le> dim"
    and v: "getItem ls (date_key year month day) = Some v" "v \<noteq> []"
  shows "let k = date_key year month day;
             body = calendarBody (fst (buildCalendar month year ls pg))
    in (\<forall>cell\<in>set (concat body). \<forall>c. children cell = Some c \<and> dateKey c = k \<longrightarrow>
          classList cell = [''grade-'' @ toLowerCase v] \<and>
          selectValue c = (if v \<in> set grades then v else [])) \<and>
       (snd (buildCalendar month year ls pg) = None \<longrightarrow>
          (\<exists>cell\<in>set (concat body). \<exists>c. children cell = Some c \<and> dateKey c = k)) \<and>
       (list_ex ascii_whitespace v \<longrightarrow> snd (buildCalendar month year ls pg) \<noteq> None)"
proof -
  define k where "k = date_key year month day"
  let ?body = "calendarBody (fst (buildCalendar month year ls pg))"
  have sc: "saved_class ls k = [''grade-'' @ toLowerCase v]"
    using v by (simp add: saved_class_def getItem_def k_def)
  have sv: "saved_value ls k = (if v \<in> set grades then v else [])"
    using v by (simp add: saved_value_def getItem_def k_def)
  have a: "\<forall>cell\<in>set (concat ?body). \<forall>c. children cell = Some c \<and> dateKey c = k \<longrightarrow>
      classList cell = [''grade-'' @ toLowerCase v] \<and>
      selectValue c = (if v \<in> set grades then v else [])"
  proof (intro ballI allI impI)
    fix cell c
    assume cell: "cell \<in> set (concat ?body)" and c: "children cell = Some c \<and> dateKey c = k"
    from built_key_class [OF cell conjunct1 [OF c]] c sc sv
    show "classList cell = [''grade-'' @ toLowerCase v] \<and>
      selectValue c = (if v \<in> set grades then v else [])"
      by simp
  qed
  have b: "\<exists>cell\<in>set (concat ?body). \<exists>c. children cell = Some c \<and> dateKey c = k"
    if "snd (buildCalendar month year ls pg) = None"
    using built_has_day [OF f d day that]
    by (intro bexI [of _ "day_td month year ls day"])
      (simp_all add: k_def day_td_def day_children_def)
  have c: "snd (buildCalendar month year ls pg) \<noteq> None" if "list_ex ascii_whitespace v"
    by (rule buildCalendar_whitespace [OF f d day v(1) that])
  show ?thesis
    unfolding Let_def k_def [symmetric] using a b c by blast
qed

text \<open>The value \<^verbatim>\<open>X\<close> stored for 5 January 2024: the class \<^verbatim>\<open>grade-x\<close>, the select blank.\<close>

theorem saved_value_applied_witness:
  "\<exists>cell\<in>set (concat (calendarBody (fst
       (buildCalendar 0 2024 (Map.empty(''2024-01-05'' \<mapsto> ''X'')) blank_page)))).
     \<exists>c. children cell = Some c \<and> dateKey c = ''2024-01-05'' \<and>
       classList cell = [''grade-x''] \<and> selectValue c = []"
proof -
  let ?ls = "Map.empty(''2024-01-05'' \<mapsto> ''X'')"
  have f: "firstDay_of 0 2024 = Some 1"
    by code_simp
  have d: "daysInMonth_of 0 2024 = Some 31"
    by code_simp
  have k: "date_key 2024 0 5 = ''2024-01-05''"
    by code_simp
  have n: "no_whitespace_values ?ls"
    using no_whitespace_values_setItem [OF no_whitespace_values_empty no_whitespace_X, of "''2024-01-05''"]
    by (simp add: setItem_def)
  have day: "(1::int) \<le> 5" "(5::int) \<le> 31"
    by simp_all
  have v: "getItem ?ls (date_key 2024 0 5) = Some ''X''" "''X'' \<noteq> []"
    by (simp_all add: getItem_def k)
  have g: "''X'' \<notin> set grades"
    by (simp add: grades_def)
  let ?B = "concat (calendarBody (fst (buildCalendar 0 2024 ?ls blank_page)))"
  note L = saved_value_applied [OF f d day v, of blank_page, unfolded Let_def k toLowerCase_X]
  from L buildCalendar_ok [OF n, of 0 2024 blank_page]
  have "\<exists>cell\<in>set ?B. \<exists>c. children cell = Some c \<and> dateKey c = ''2024-01-05''"
    by blast
  then obtain cell c where cell: "cell \<in> set ?B"
    and c: "children cell = Some c \<and> dateKey c = ''2024-01-05''"
    by blast
  from L cell c have "classList cell = [''grade-'' @ ''x''] \<and>
      selectValue c = (if ''X'' \<in> set grades then ''X'' else [])"
    by blast
  with g cell c show ?thesis
    by (intro bexI [of _ cell] exI [of _ c]) simp_all
qed

text \<open>
  The claim as stated fails in two ways. The select does not take the value \<^verbatim>\<open>X\<close>: it has
  no such option, and its value reads \<^verbatim>\<open>''\<close>. And for a value with whitespace, such as
  \<^verbatim>\<open>"A B"\<close>, no class is added: \<^verbatim>\<open>classList.add\<close> throws, and the rebuild ends.
\<close>

theorem unknown_value_counterexample:
  "(\<exists>cell\<in>set (concat (calendarBody (fst
       (buildCalendar 0 2024 (Map.empty(''2024-01-05'' \<mapsto> ''X'')) blank_page)))).
     \<exists>c. children cell = Some c \<and> dateKey c = ''2024-01-05'' \<and> selectValue c = [] \<and>
       selectValue c \<noteq> ''X'') \<and>
   buildCalendar 0 2024 (Map.empty(''2024-01-01'' \<mapsto> ''A B'')) blank_page =
     (\<lparr>monthYearText = ''January 2024'', calendarBody = []\<rparr>, Some InvalidCharacterError)"
proof -
  let ?ls = "Map.empty(''2024-01-05'' \<mapsto> ''X'')"
  have f: "firstDay_of 0 2024 = Some 1"
    by code_simp
  have d: "daysInMonth_of 0 2024 = Some 31"
    by code_simp
  have k: "date_key 2024 0 5 = ''2024-01-05''"
    by code_simp
  have n: "no_whitespace_values ?ls"
    using no_whitespace_values_setItem [OF no_whitespace_values_empty no_whitespace_X, of "''2024-01-05''"]
    by (simp add: setItem_def)
  have "day_td 0 2024 ?ls 5 \<in> set (concat (calendarBody (fst (buildCalendar 0 2024 ?ls blank_page))))"
    by (rule built_has_day [OF f d _ _ buildCalendar_ok [OF n]]) simp_all
  moreover have "children (day_td 0 2024 ?ls 5) = Some (day_children 0 2024 ?ls 5)"
    by (simp add: day_td_def)
  moreover have "dateKey (day_children 0 2024 ?ls 5) = ''2024-01-05''"
    by (simp add: day_children_def k)
  moreover have "selectValue (day_children 0 2024 ?ls 5) = []"
    by (simp add: day_children_def k saved_value_def grades_def)
  ultimately have a: "\<exists>cell\<in>set (concat (calendarBody (fst (buildCalendar 0 2024 ?ls blank_page)))).
     \<exists>c. children cell = Some c \<and> dateKey c = ''2024-01-05'' \<and> selectValue c = [] \<and>
       selectValue c \<noteq> ''X''"
    by (intro bexI [of _ "day_td 0 2024 ?ls 5"] exI [of _ "day_children 0 2024 ?ls 5"]) simp_all
  have b: "buildCalendar 0 2024 (Map.empty(''2024-01-01'' \<mapsto> ''A B'')) blank_page =
     (\<lparr>monthYearText = ''January 2024'', calendarBody = []\<rparr>, Some InvalidCharacterError)"
    by code_simp
  from a b show ?thesis
    by (rule conjI)
qed

end
